theory Spec2Isabelle
  imports Main
begin

section \<open>Gmail Label Manager: sheet, directory, row changes and merge sync\<close>

text \<open>
  A shallow embedding of \<^verbatim>\<open>config.js\<close>, \<^verbatim>\<open>logging.js\<close>, \<^verbatim>\<open>labelling.js\<close>,
  \<^verbatim>\<open>sync.js\<close> and of the two callers in \<^verbatim>\<open>triggers.js\<close> and \<^verbatim>\<open>ui.js\<close> that
  the properties below mention. The script mutates two stores, the spreadsheet and the
  Gmail account, and writes a log; the model passes the three around as one record.

  Conventions.
  \<^item> A plain JavaScript object used as a dictionary is a finite map over its own
    properties, read through its prototype: \<open>labelMap\<close> is a map, \<open>sheetLabelMap\<close>,
    which is iterated with \<^verbatim>\<open>for ... in\<close>, is an association list in insertion order, and
    a read of a key that is no own property finds the member of \<^verbatim>\<open>Object.prototype\<close> of
    that name, if there is one.
  \<^item> Cells hold strings; the empty cell reads as the empty string. An inherited member
    that is written into a cell is held there in its string form. The sheet has the two
    columns of the configuration.
  \<^item> Row 1 is the header row and holds the column titles, so the last row with content
    is never above it.
  \<^item> Of the calls to Gmail only the label listing can fail. The \<^verbatim>\<open>catch\<close> blocks around
    the other calls therefore have no branch here; the listing inside \<open>getLabelMap\<close> is
    caught there, the one at step 3 of \<open>syncAllLabels\<close> is not.
\<close>

subsection \<open>Configuration\<close>

definition HEADER_ROW :: nat where
  "HEADER_ROW = 1"

definition LABEL_ID_COLUMN :: nat where
  "LABEL_ID_COLUMN = 1"

definition NAME_COLUMN :: nat where
  "NAME_COLUMN = 2"

definition DEBUG_MODE :: bool where
  "DEBUG_MODE = True"

subsection \<open>The spreadsheet\<close>

text \<open>
  The rows below the header, first data row first. Each row has the id cell of column A
  and the name cell of column B. Reading outside the stored rows gives the empty string;
  writing below them extends the sheet with blank rows.
\<close>

record sheet_row =
  id_cell :: string
  name_cell :: string

type_synonym sheet = "sheet_row list"

definition blank_row :: sheet_row where
  "blank_row = \<lparr>id_cell = [], name_cell = []\<rparr>"

definition is_blank :: "sheet_row \<Rightarrow> bool" where
  "is_blank r = (id_cell r = [] \<and> name_cell r = [])"

definition getLastRow :: "sheet \<Rightarrow> nat" where
  "getLastRow s = HEADER_ROW + length (dropWhile is_blank (rev s))"

definition getValue :: "nat \<Rightarrow> nat \<Rightarrow> sheet \<Rightarrow> string" where
  "getValue row col s =
     (if row \<le> HEADER_ROW \<or> length s \<le> row - (HEADER_ROW + 1) then []
      else if col = LABEL_ID_COLUMN then id_cell (s ! (row - (HEADER_ROW + 1)))
      else if col = NAME_COLUMN then name_cell (s ! (row - (HEADER_ROW + 1)))
      else [])"

definition setValue :: "nat \<Rightarrow> nat \<Rightarrow> string \<Rightarrow> sheet \<Rightarrow> sheet" where
  "setValue row col v s =
     (if row \<le> HEADER_ROW then s
      else
        let i = row - (HEADER_ROW + 1);
            s' = s @ replicate (Suc i - length s) blank_row
        in s'[i := (if col = LABEL_ID_COLUMN then (s' ! i)\<lparr>id_cell := v\<rparr>
                    else if col = NAME_COLUMN then (s' ! i)\<lparr>name_cell := v\<rparr>
                    else s' ! i)])"

definition clearContent :: "nat \<Rightarrow> nat \<Rightarrow> sheet \<Rightarrow> sheet" where
  "clearContent row col s = setValue row col [] s"

definition local_names :: "sheet \<Rightarrow> string set" where
  "local_names s = set (map name_cell s) - {[]}"

subsection \<open>The Gmail account\<close>

text \<open>
  The remote store behind \<^verbatim>\<open>GmailApp\<close> and the advanced service \<^verbatim>\<open>Gmail\<close>: its labels,
  its threads with the ids of the labels attached to each, a counter for fresh label ids,
  the behaviour of the label listing, and the calls that changed the account, oldest first
  (a call through a label object records the label it acts on).

  The listing either answers with the labels, answers without a \<^verbatim>\<open>labels\<close> payload, or
  raises. The other calls answer: \<^verbatim>\<open>createLabel\<close> returns the existing label when the
  name is taken and makes a user label otherwise, \<^verbatim>\<open>getUserLabelByName\<close> finds user
  labels only, a search for \<^verbatim>\<open>label:NAME\<close> returns the threads that carry the label of
  that name, and deleting a label takes it off its threads.
\<close>

datatype label_type = User | System

record remote_label =
  rl_id :: string
  rl_name :: string
  rl_type :: label_type

record thread =
  t_id :: nat
  t_labels :: "string list"

datatype listing = ListOk | ListNoPayload | ListThrows string

datatype api_call =
    CreateLabel string
  | AddToThreads remote_label "nat list"
  | RemoveFromThreads remote_label "nat list"
  | DeleteLabel remote_label

record gmail =
  labels :: "remote_label list"
  threads :: "thread list"
  next_id :: nat
  listing :: listing
  calls :: "api_call list"

definition digit_char :: "nat \<Rightarrow> char" where
  "digit_char n = ''0123456789'' ! n"

function show_nat :: "nat \<Rightarrow> string" where
  "show_nat n = (if n < 10 then [digit_char n] else show_nat (n div 10) @ [digit_char (n mod 10)])"
  by pat_completeness auto
termination
  by (relation "measure (\<lambda>n. n)") auto

declare show_nat.simps [simp del]

definition remote_names :: "gmail \<Rightarrow> string set" where
  "remote_names g = set (map rl_name (labels g))"

definition Gmail_Users_Labels_list :: "gmail \<Rightarrow> string + remote_label list option" where
  "Gmail_Users_Labels_list g =
     (case listing g of
        ListThrows msg \<Rightarrow> Inl msg
      | ListNoPayload \<Rightarrow> Inr None
      | ListOk \<Rightarrow> Inr (Some (labels g)))"

definition GmailApp_createLabel :: "string \<Rightarrow> gmail \<Rightarrow> gmail" where
  "GmailApp_createLabel name g =
     (if name \<in> set (map rl_name (labels g)) then g\<lparr>calls := calls g @ [CreateLabel name]\<rparr>
      else g\<lparr>labels := labels g @
                 [\<lparr>rl_id = ''Label_'' @ show_nat (next_id g), rl_name = name, rl_type = User\<rparr>],
               next_id := Suc (next_id g),
               calls := calls g @ [CreateLabel name]\<rparr>)"

definition GmailApp_getUserLabelByName :: "string \<Rightarrow> gmail \<Rightarrow> remote_label option" where
  "GmailApp_getUserLabelByName name g =
     find (\<lambda>l. rl_name l = name \<and> rl_type l = User) (labels g)"

definition GmailApp_search_label :: "string \<Rightarrow> gmail \<Rightarrow> nat list" where
  "GmailApp_search_label name g =
     map t_id (filter (\<lambda>t. list_ex (\<lambda>l. rl_name l = name \<and> rl_id l \<in> set (t_labels t)) (labels g))
                 (threads g))"

definition addToThreads :: "remote_label \<Rightarrow> nat list \<Rightarrow> gmail \<Rightarrow> gmail" where
  "addToThreads label batch g =
     g\<lparr>threads := map (\<lambda>t. if t_id t \<in> set batch \<and> rl_id label \<notin> set (t_labels t)
                            then t\<lparr>t_labels := t_labels t @ [rl_id label]\<rparr> else t) (threads g),
       calls := calls g @ [AddToThreads label batch]\<rparr>"

definition removeFromThreads :: "remote_label \<Rightarrow> nat list \<Rightarrow> gmail \<Rightarrow> gmail" where
  "removeFromThreads label batch g =
     g\<lparr>threads := map (\<lambda>t. if t_id t \<in> set batch
                            then t\<lparr>t_labels := removeAll (rl_id label) (t_labels t)\<rparr> else t) (threads g),
       calls := calls g @ [RemoveFromThreads label batch]\<rparr>"

definition label_deleteLabel :: "remote_label \<Rightarrow> gmail \<Rightarrow> gmail" where
  "label_deleteLabel label g =
     g\<lparr>labels := remove1 label (labels g),
       threads := map (\<lambda>t. t\<lparr>t_labels := removeAll (rl_id label) (t_labels t)\<rparr>) (threads g),
       calls := calls g @ [DeleteLabel label]\<rparr>"

subsection \<open>The world and the log\<close>

datatype log_entry = Debug string | Error string | Toast string string

record world =
  sheet :: sheet
  gmail :: gmail
  logs :: "log_entry list"

definition logDebug :: "string \<Rightarrow> world \<Rightarrow> world" where
  "logDebug message w =
     (if DEBUG_MODE then w\<lparr>logs := logs w @ [Debug (''[DEBUG] '' @ message)]\<rparr> else w)"

definition logError :: "string \<Rightarrow> world \<Rightarrow> world" where
  "logError message w = w\<lparr>logs := logs w @ [Error (''[ERROR] '' @ message)]\<rparr>"

definition toast :: "string \<Rightarrow> string \<Rightarrow> world \<Rightarrow> world" where
  "toast message title w = w\<lparr>logs := logs w @ [Toast message title]\<rparr>"

definition on_sheet :: "(sheet \<Rightarrow> sheet) \<Rightarrow> world \<Rightarrow> world" where
  "on_sheet f w = w\<lparr>sheet := f (sheet w)\<rparr>"

definition on_gmail :: "(gmail \<Rightarrow> gmail) \<Rightarrow> world \<Rightarrow> world" where
  "on_gmail f w = w\<lparr>gmail := f (gmail w)\<rparr>"

definition dq :: string where
  "dq = [CHR 0x22]"

definition quoted :: "string \<Rightarrow> string" where
  "quoted s = dq @ s @ dq"

subsection \<open>Label directory client\<close>

text \<open>
  The dictionaries of the code are plain objects made by \<^verbatim>\<open>{}\<close>. Such an object holds its own
  properties and inherits the members of \<^verbatim>\<open>Object.prototype\<close>: reading a key that is no own
  property but names such a member gives the inherited member, a function (for
  \<^verbatim>\<open>__proto__\<close> the prototype object), which is truthy. Assigning a string or a number to the
  key \<^verbatim>\<open>__proto__\<close> runs the inherited setter, which ignores it, so that key never becomes an
  own property; every other key does. \<^verbatim>\<open>for ... in\<close> and \<^verbatim>\<open>Object.keys\<close> see the own
  properties only, the inherited members not being enumerable.
\<close>

definition proto_key :: string where
  "proto_key = ''__proto__''"

definition proto_member :: "string \<Rightarrow> bool" where
  "proto_member k =
     (k \<in> set [''constructor'', ''toString'', ''toLocaleString'', ''valueOf'',
                ''hasOwnProperty'', ''isPrototypeOf'', ''propertyIsEnumerable'',
                ''__defineGetter__'', ''__defineSetter__'', ''__lookupGetter__'',
                ''__lookupSetter__'', ''__proto__''])"

text \<open>
  The string form of an inherited member, as a template literal prints it. A cell that is
  given an inherited member is taken to hold this string form.
\<close>

definition member_text :: "string \<Rightarrow> string" where
  "member_text k =
     (if k = proto_key then ''[object Object]''
      else if k = ''constructor'' then ''function Object() { [native code] }''
      else ''function '' @ k @ ''() { [native code] }'')"

text \<open>\<^verbatim>\<open>obj[k] = v\<close> on the own properties of a plain object, for a string or number \<open>v\<close>.\<close>

definition obj_put :: "(string \<rightharpoonup> 'v) \<Rightarrow> string \<Rightarrow> 'v \<Rightarrow> (string \<rightharpoonup> 'v)" where
  "obj_put obj k v = (if k = proto_key then obj else obj(k \<mapsto> v))"

text \<open>
  \<^verbatim>\<open>labelMap[label.name] = label.id\<close> for every listed label, later entries winning. A
  listing that raises or has no payload is logged and gives the empty map.
\<close>

definition label_map_of :: "remote_label list \<Rightarrow> (string \<rightharpoonup> string)" where
  "label_map_of ls = fold (\<lambda>label labelMap. obj_put labelMap (rl_name label) (rl_id label)) ls Map.empty"

definition getLabelMap :: "world \<Rightarrow> (string \<rightharpoonup> string) \<times> world" where
  "getLabelMap w =
     (case Gmail_Users_Labels_list (gmail w) of
        Inl msg \<Rightarrow> (Map.empty, logError (''Error getting label map: '' @ msg) w)
      | Inr None \<Rightarrow> (Map.empty, logError ''No labels found in the Gmail account'' w)
      | Inr (Some ls) \<Rightarrow>
          (label_map_of ls,
           logDebug (''Found '' @
                     show_nat (length (remdups (filter (\<lambda>n. n \<noteq> proto_key) (map rl_name ls)))) @
                     '' Gmail labels'') w))"

text \<open>\<^verbatim>\<open>v || null\<close> and \<^verbatim>\<open>!v\<close> on a stored id: a missing entry and the empty string are falsy.\<close>

definition truthy :: "string option \<Rightarrow> string option" where
  "truthy v = (case v of None \<Rightarrow> None | Some s \<Rightarrow> if s = [] then None else Some s)"

text \<open>
  \<^verbatim>\<open>labelMap[k] || null\<close>: the own entry if there is one (the empty string being falsy), else
  the inherited member if \<open>k\<close> names one, given by its string form, else nothing.
\<close>

definition truthy_get :: "(string \<rightharpoonup> string) \<Rightarrow> string \<Rightarrow> string option" where
  "truthy_get labelMap k =
     (case labelMap k of
        Some v \<Rightarrow> truthy (Some v)
      | None \<Rightarrow> if proto_member k then Some (member_text k) else None)"

definition getLabelId :: "string \<Rightarrow> world \<Rightarrow> string option \<times> world" where
  "getLabelId labelName w =
     (let (labelMap, w) = getLabelMap w in (truthy_get labelMap labelName, w))"

subsection \<open>Hierarchy\<close>

text \<open>\<^verbatim>\<open>String.prototype.split\<close> on a one-character separator, and \<^verbatim>\<open>Array.prototype.join\<close>.\<close>

fun split_on :: "char \<Rightarrow> string \<Rightarrow> string list" where
  "split_on c [] = [[]]"
| "split_on c (x # xs) =
     (if x = c then [] # split_on c xs
      else (case split_on c xs of [] \<Rightarrow> [[x]] | p # ps \<Rightarrow> (x # p) # ps))"

fun join_with :: "string \<Rightarrow> string list \<Rightarrow> string" where
  "join_with sep [] = []"
| "join_with sep [p] = p"
| "join_with sep (p # q # ps) = p @ sep @ join_with sep (q # ps)"

text \<open>
  The proper ancestor paths of a name, root first: the joins of its first \<open>k\<close> segments
  for \<open>k\<close> from one to one less than the number of segments.
\<close>

definition ancestor_paths :: "string \<Rightarrow> string list" where
  "ancestor_paths name =
     map (\<lambda>k. join_with ''/'' (take k (split_on CHR ''/'' name)))
       [1 ..< length (split_on CHR ''/'' name)]"

text \<open>
  The values \<^verbatim>\<open>parentPath\<close> takes in the loops over \<^verbatim>\<open>parts[0 .. length - 2]\<close>: a slash
  is put in front of the next part when the path so far is non-empty.
\<close>

definition extend_path :: "string \<Rightarrow> string \<Rightarrow> string" where
  "extend_path parentPath part = (if parentPath \<noteq> [] then parentPath @ ''/'' else parentPath) @ part"

fun paths_from :: "string \<Rightarrow> string list \<Rightarrow> string list" where
  "paths_from parentPath [] = []"
| "paths_from parentPath (part # parts) =
     extend_path parentPath part # paths_from (extend_path parentPath part) parts"

definition parent_paths :: "string \<Rightarrow> string list" where
  "parent_paths labelName = paths_from [] (butlast (split_on CHR ''/'' labelName))"

text \<open>
  A dictionary object with the order of its own keys: assignment keeps the position of a
  key that is already there, and the key \<^verbatim>\<open>__proto__\<close> is never stored.
\<close>

fun obj_set :: "(string \<times> 'v) list \<Rightarrow> string \<Rightarrow> 'v \<Rightarrow> (string \<times> 'v) list" where
  "obj_set [] k v = [(k, v)]"
| "obj_set ((k', v') # kvs) k v =
     (if k' = k then (k, v) # kvs else (k', v') # obj_set kvs k v)"

definition obj_assign :: "(string \<times> 'v) list \<Rightarrow> string \<Rightarrow> 'v \<Rightarrow> (string \<times> 'v) list" where
  "obj_assign obj k v = (if k = proto_key then obj else obj_set obj k v)"

text \<open>
  Whether \<^verbatim>\<open>sheetLabelMap[k]\<close> is truthy: an own entry is a row number, at least 2, and an
  inherited member is a function or an object.
\<close>

definition obj_has :: "(string \<times> 'v) list \<Rightarrow> string \<Rightarrow> bool" where
  "obj_has obj k = (case map_of obj k of Some v \<Rightarrow> True | None \<Rightarrow> proto_member k)"

text \<open>
  \<^verbatim>\<open>sheetLabelMap[name] = row\<close> for the rows from the first data row to \<open>lastRow\<close> whose
  name cell is non-empty.
\<close>

definition scan_rows :: "sheet \<Rightarrow> nat list \<Rightarrow> (string \<times> nat) list \<Rightarrow> (string \<times> nat) list" where
  "scan_rows s rows m =
     fold (\<lambda>row sheetLabelMap.
             let labelName = getValue row NAME_COLUMN s
             in if labelName \<noteq> [] then obj_assign sheetLabelMap labelName row else sheetLabelMap)
       rows m"

definition sheet_label_map :: "sheet \<Rightarrow> nat \<Rightarrow> (string \<times> nat) list" where
  "sheet_label_map s lastRow = scan_rows s [HEADER_ROW + 1 ..< Suc lastRow] []"

fun addParents_loop ::
  "nat \<Rightarrow> string list \<Rightarrow> string \<Rightarrow> nat \<Rightarrow> (string \<times> nat) list \<Rightarrow> world \<Rightarrow> world" where
  "addParents_loop lastRow [] parentPath parentsAdded sheetLabelMap w = w"
| "addParents_loop lastRow (part # parts) parentPath parentsAdded sheetLabelMap w =
     (let parentPath = extend_path parentPath part;
          (parentId, w) = getLabelId parentPath w;
          w = (if parentId = None
               then toast (''New parent label '' @ quoted parentPath @ '' created in Gmail.'') ''Info''
                      (logDebug (''Created parent label '' @ quoted parentPath @ '' in Gmail'')
                        (on_gmail (GmailApp_createLabel parentPath) w))
               else w)
      in if \<not> obj_has sheetLabelMap parentPath
         then
           (let newRow = lastRow + 1 + parentsAdded;
                w = on_sheet (setValue newRow NAME_COLUMN parentPath) w;
                (parentLabelId, w) = getLabelId parentPath w;
                w = (case parentLabelId of
                       Some pid \<Rightarrow> on_sheet (setValue newRow LABEL_ID_COLUMN pid) w
                     | None \<Rightarrow> w);
                w = logDebug (''Added parent label '' @ quoted parentPath @
                              '' to spreadsheet at row '' @ show_nat newRow) w
            in addParents_loop lastRow parts parentPath (parentsAdded + 1)
                 (obj_assign sheetLabelMap parentPath newRow) w)
         else addParents_loop lastRow parts parentPath parentsAdded sheetLabelMap w)"

definition addParentLabelsToSheet :: "string \<Rightarrow> world \<Rightarrow> world" where
  "addParentLabelsToSheet labelName w =
     (if CHR ''/'' \<notin> set labelName then w
      else
        let lastRow = getLastRow (sheet w);
            sheetLabelMap = sheet_label_map (sheet w) lastRow;
            parts = split_on CHR ''/'' labelName
        in addParents_loop lastRow (butlast parts) [] 0 sheetLabelMap w)"

subsection \<open>Row-change processor\<close>

definition createLabel :: "nat \<Rightarrow> string \<Rightarrow> world \<Rightarrow> world" where
  "createLabel row labelName w =
     (let w = logDebug (''Creating label: '' @ quoted labelName) w;
          (existingId, w) = getLabelId labelName w
      in case existingId of
           Some eid \<Rightarrow>
             toast (''Label '' @ quoted labelName @ '' already exists in Gmail.'') ''Info''
               (on_sheet (setValue row LABEL_ID_COLUMN eid)
                 (logDebug (''Label '' @ quoted labelName @ '' already exists with ID: '' @ eid) w))
         | None \<Rightarrow>
             (let w = addParentLabelsToSheet labelName w;
                  w = on_gmail (GmailApp_createLabel labelName) w;
                  (newLabelId, w) = getLabelId labelName w
              in case newLabelId of
                   Some nid \<Rightarrow>
                     toast (''New label '' @ quoted labelName @ '' created in Gmail.'') ''Success''
                       (logDebug (''Label '' @ quoted labelName @
                                  '' created successfully with ID: '' @ nid)
                         (on_sheet (setValue row LABEL_ID_COLUMN nid) w))
                 | None \<Rightarrow>
                     toast (''Created label but couldn'' @ [CHR 0x27] @ ''t retrieve its ID'') ''Warning''
                       (logError (''Failed to retrieve ID for newly created label '' @
                                  quoted labelName) w)))"

definition BATCH_SIZE :: nat where
  "BATCH_SIZE = 100"

text \<open>The batches \<^verbatim>\<open>threads.slice(i, i + BATCH_SIZE)\<close> for \<open>i\<close> going up in steps of the batch size.\<close>

function thread_batches :: "nat list \<Rightarrow> nat \<Rightarrow> nat list list" where
  "thread_batches ths i =
     (if i < length ths
      then take BATCH_SIZE (drop i ths) # thread_batches ths (i + BATCH_SIZE)
      else [])"
  by pat_completeness auto
termination
  by (relation "measure (\<lambda>(ths, i). length ths - i)") (auto simp: BATCH_SIZE_def)

declare thread_batches.simps [simp del]

function add_batches :: "remote_label \<Rightarrow> nat list \<Rightarrow> nat \<Rightarrow> gmail \<Rightarrow> gmail" where
  "add_batches newLabel ths i g =
     (if i < length ths
      then
        let batch = take BATCH_SIZE (drop i ths)
        in add_batches newLabel ths (i + BATCH_SIZE)
             (if batch \<noteq> [] then addToThreads newLabel batch g else g)
      else g)"
  by pat_completeness auto
termination
  by (relation "measure (\<lambda>(l, ths, i, g). length ths - i)") (auto simp: BATCH_SIZE_def)

declare add_batches.simps [simp del]

function remove_batches :: "remote_label \<Rightarrow> nat list \<Rightarrow> nat \<Rightarrow> gmail \<Rightarrow> gmail" where
  "remove_batches oldLabel ths i g =
     (if i < length ths
      then
        let batch = take BATCH_SIZE (drop i ths)
        in remove_batches oldLabel ths (i + BATCH_SIZE)
             (if batch \<noteq> [] then removeFromThreads oldLabel batch g else g)
      else g)"
  by pat_completeness auto
termination
  by (relation "measure (\<lambda>(l, ths, i, g). length ths - i)") (auto simp: BATCH_SIZE_def)

declare remove_batches.simps [simp del]

definition updateLabel :: "nat \<Rightarrow> string \<Rightarrow> string \<Rightarrow> world \<Rightarrow> world" where
  "updateLabel row oldLabelName newLabelName w =
     (let w = logDebug (''Updating label: '' @ quoted oldLabelName @ '' -> '' @ quoted newLabelName) w;
          (oldLabelId, w) = getLabelId oldLabelName w
      in case oldLabelId of
           None \<Rightarrow>
             createLabel row newLabelName
               (logDebug (''Old label '' @ quoted oldLabelName @ '' not found, creating new label '' @
                          quoted newLabelName @ '' instead'') w)
         | Some oid \<Rightarrow>
             (let w = addParentLabelsToSheet newLabelName w;
                  ths = GmailApp_search_label oldLabelName (gmail w);
                  w = logDebug (''Found '' @ show_nat (length ths) @ '' threads with label '' @
                                quoted oldLabelName) w;
                  w = on_gmail (GmailApp_createLabel newLabelName) w;
                  (newLabelId, w) = getLabelId newLabelName w
              in case newLabelId of
                   None \<Rightarrow>
                     toast (''Error updating label: couldn'' @ [CHR 0x27] @ ''t create new label'') ''Error''
                       (logError (''Failed to get ID for new label '' @ quoted newLabelName) w)
                 | Some nid \<Rightarrow>
                     (case (GmailApp_getUserLabelByName oldLabelName (gmail w),
                            GmailApp_getUserLabelByName newLabelName (gmail w)) of
                        (Some oldLabel, Some newLabel) \<Rightarrow>
                          (let w = on_gmail (add_batches newLabel ths 0) w;
                               w = on_gmail (remove_batches oldLabel ths 0) w;
                               w = on_gmail (label_deleteLabel oldLabel) w;
                               w = on_sheet (setValue row LABEL_ID_COLUMN nid) w;
                               w = logDebug (''Label updated successfully from '' @ quoted oldLabelName @
                                             '' to '' @ quoted newLabelName) w
                           in toast (''The label '' @ quoted oldLabelName @ '' has been renamed to '' @
                                     quoted newLabelName @ '' within Gmail.'') ''Success'' w)
                      | _ \<Rightarrow>
                          logError (''Failed to get label objects for '' @ quoted oldLabelName @
                                    '' or '' @ quoted newLabelName) w)))"

definition deleteLabel :: "nat \<Rightarrow> string \<Rightarrow> world \<Rightarrow> world" where
  "deleteLabel row labelName w =
     (let w = logDebug (''Attempting to delete label: '' @ quoted labelName) w;
          (labelId, w) = getLabelId labelName w
      in case labelId of
           None \<Rightarrow>
             on_sheet (clearContent row LABEL_ID_COLUMN)
               (logDebug (''Label '' @ quoted labelName @ '' not found, nothing to delete'') w)
         | Some lid \<Rightarrow>
             (case GmailApp_getUserLabelByName labelName (gmail w) of
                None \<Rightarrow>
                  on_sheet (clearContent row LABEL_ID_COLUMN)
                    (logDebug (''Label object for '' @ quoted labelName @ '' not found'') w)
              | Some label \<Rightarrow>
                  (let ths = GmailApp_search_label labelName (gmail w)
                   in if length ths > 0
                      then
                        (let message = ''Cannot delete label '' @ quoted labelName @
                                       '' as it still has '' @ show_nat (length ths) @
                                       '' threads using it.'';
                             w = logDebug message w;
                             w = toast message ''Warning'' w
                         in on_sheet (setValue row NAME_COLUMN labelName) w)
                      else
                        (let w = on_gmail (label_deleteLabel label) w;
                             w = on_sheet (clearContent row LABEL_ID_COLUMN) w;
                             w = logDebug (''Label '' @ quoted labelName @ '' deleted successfully'') w
                         in toast (''The label '' @ quoted labelName @
                                   '' has been deleted from Gmail.'') ''Info'' w))))"

definition handleLabelChange :: "nat \<Rightarrow> string \<Rightarrow> string \<Rightarrow> world \<Rightarrow> world" where
  "handleLabelChange row oldLabelName newLabelName w =
     (let w = logDebug (''Processing label change: '' @ quoted oldLabelName @ '' -> '' @
                        quoted newLabelName) w
      in if oldLabelName = [] \<and> newLabelName \<noteq> [] then createLabel row newLabelName w
         else if oldLabelName \<noteq> [] \<and> newLabelName = [] then deleteLabel row oldLabelName w
         else if oldLabelName \<noteq> [] \<and> newLabelName \<noteq> [] \<and> oldLabelName \<noteq> newLabelName
         then updateLabel row oldLabelName newLabelName w
         else w)"

text \<open>The edit event: \<^verbatim>\<open>e.value\<close> and \<^verbatim>\<open>e.oldValue\<close> are absent for an empty cell.\<close>

record edit_event =
  e_sheetName :: string
  e_row :: nat
  e_column :: nat
  e_value :: "string option"
  e_oldValue :: "string option"

definition SHEET_NAME :: string where
  "SHEET_NAME = ''Labels''"

definition or_empty :: "string option \<Rightarrow> string" where
  "or_empty v = (case v of None \<Rightarrow> [] | Some s \<Rightarrow> s)"

definition onEditTrigger :: "edit_event \<Rightarrow> world \<Rightarrow> world" where
  "onEditTrigger e w =
     (if e_sheetName e \<noteq> SHEET_NAME then w
      else if e_row e \<le> HEADER_ROW then w
      else if e_column e = NAME_COLUMN
      then
        (let w = logDebug (''Change detected in Name column at row '' @ show_nat (e_row e)) w;
             newLabelName = or_empty (e_value e);
             oldLabelName = or_empty (e_oldValue e)
         in handleLabelChange (e_row e) oldLabelName newLabelName w)
      else w)"

subsection \<open>Merge sync\<close>

text \<open>
  \<^verbatim>\<open>for (const labelName in sheetLabelMap)\<close> visits the keys that are array indices in
  ascending numeric order, then the other keys in insertion order.
\<close>

definition is_digit :: "char \<Rightarrow> bool" where
  "is_digit c = (48 \<le> (of_char c :: nat) \<and> (of_char c :: nat) \<le> 57)"

definition dec_value :: "string \<Rightarrow> nat" where
  "dec_value s = foldl (\<lambda>a c. 10 * a + ((of_char c :: nat) - 48)) 0 s"

definition is_array_index :: "string \<Rightarrow> bool" where
  "is_array_index s =
     (s \<noteq> [] \<and> list_all is_digit s \<and> (if length s = 1 then True else hd s \<noteq> CHR ''0'') \<and>
      dec_value s < 2 ^ 32 - 1)"

definition for_in :: "(string \<times> 'v) list \<Rightarrow> (string \<times> 'v) list" where
  "for_in obj =
     sort_key (\<lambda>kv. dec_value (fst kv)) (filter (\<lambda>kv. is_array_index (fst kv)) obj) @
     filter (\<lambda>kv. \<not> is_array_index (fst kv)) obj"

fun sync_parents :: "(string \<rightharpoonup> string) \<Rightarrow> string list \<Rightarrow> string \<Rightarrow> world \<Rightarrow> world" where
  "sync_parents labelMap [] parentPath w = w"
| "sync_parents labelMap (part # parts) parentPath w =
     (let parentPath = extend_path parentPath part;
          w = (if truthy_get labelMap parentPath = None
               then logDebug (''Created parent label '' @ quoted parentPath)
                      (on_gmail (GmailApp_createLabel parentPath) w)
               else w)
      in sync_parents labelMap parts parentPath w)"

definition sync_label :: "(string \<rightharpoonup> string) \<Rightarrow> string \<times> nat \<Rightarrow> world \<Rightarrow> world" where
  "sync_label labelMap entry w =
     (let labelName = fst entry; row = snd entry
      in case truthy_get labelMap labelName of
           None \<Rightarrow>
             (let w = (if CHR ''/'' \<in> set labelName
                       then sync_parents labelMap (butlast (split_on CHR ''/'' labelName)) [] w
                       else w);
                  w = on_gmail (GmailApp_createLabel labelName) w;
                  (newLabelId, w) = getLabelId labelName w
              in case newLabelId of
                   Some nid \<Rightarrow>
                     logDebug (''Created label '' @ quoted labelName @ '' during sync with ID: '' @ nid)
                       (on_sheet (setValue row LABEL_ID_COLUMN nid) w)
                 | None \<Rightarrow> w)
         | Some labelId \<Rightarrow>
             logDebug (''Updated ID for existing label '' @ quoted labelName @ '': '' @ labelId)
               (on_sheet (setValue row LABEL_ID_COLUMN labelId) w))"

definition is_system_label :: "remote_label \<Rightarrow> bool" where
  "is_system_label label =
     (rl_type label = System \<or> take 9 (rl_name label) = ''CATEGORY_'' \<or>
      rl_name label \<in> set [''INBOX'', ''SENT'', ''DRAFT'', ''TRASH'', ''SPAM''])"

fun add_missing_rows :: "(string \<times> nat) list \<Rightarrow> remote_label list \<Rightarrow> nat \<Rightarrow> world \<Rightarrow> world" where
  "add_missing_rows sheetLabelMap [] lastRow w = w"
| "add_missing_rows sheetLabelMap (label # rest) lastRow w =
     (if is_system_label label then add_missing_rows sheetLabelMap rest lastRow w
      else if obj_has sheetLabelMap (rl_name label)
      then add_missing_rows sheetLabelMap rest lastRow w
      else
        (let lastRow = Suc lastRow;
             w = on_sheet (setValue lastRow LABEL_ID_COLUMN (rl_id label)) w;
             w = on_sheet (setValue lastRow NAME_COLUMN (rl_name label)) w;
             w = logDebug (''Added Gmail label '' @ quoted (rl_name label) @ '' to spreadsheet'') w
         in add_missing_rows sheetLabelMap rest lastRow w))"

text \<open>
  How a call ends: with the value it returns, or with the message of the error it raises.
  A JavaScript function that ends without a \<^verbatim>\<open>return\<close> statement returns \<^verbatim>\<open>undefined\<close>,
  which is \<open>None\<close> here.
\<close>

datatype 'a completion = Returned 'a | Raised string

record sync_result =
  createdInGmail :: "string list option"
  addedToSheet :: "string list option"

definition syncAllLabels :: "world \<Rightarrow> sync_result option completion \<times> world" where
  "syncAllLabels w =
     (let lastRow = getLastRow (sheet w);
          (labelMap, w) = getLabelMap w;
          sheetLabelMap = sheet_label_map (sheet w) lastRow;
          w = fold (sync_label labelMap) (for_in sheetLabelMap) w
      in case Gmail_Users_Labels_list (gmail w) of
           Inl msg \<Rightarrow> (Raised msg, w)
         | Inr response \<Rightarrow>
             (let w = (case response of
                         Some ls \<Rightarrow> add_missing_rows sheetLabelMap ls lastRow w
                       | None \<Rightarrow> w);
                  w = toast ''All labels synced bidirectionally between Gmail and spreadsheet'' [] w
              in (Returned None, w)))"

subsection \<open>Auto sync on open\<close>

definition list_length_or_zero :: "string list option \<Rightarrow> nat" where
  "list_length_or_zero v = (case v of None \<Rightarrow> 0 | Some xs \<Rightarrow> length xs)"

definition showSyncResults :: "sync_result option \<Rightarrow> world \<Rightarrow> unit completion \<times> world" where
  "showSyncResults results w =
     (case results of
        None \<Rightarrow>
          (Raised (''Cannot read properties of undefined (reading '' @ [CHR 0x27] @
                   ''createdInGmail'' @ [CHR 0x27] @ '')''), w)
      | Some r \<Rightarrow>
          (let totalChanges = list_length_or_zero (createdInGmail r) + list_length_or_zero (addedToSheet r)
           in if totalChanges > 0
              then
                (let w = toast (''Auto Sync complete: '' @ show_nat totalChanges @
                                '' label(s) synchronized'') ''Auto Sync Complete'' w;
                     w = (case createdInGmail r of
                            Some (c # cs) \<Rightarrow>
                              toast (''Labels found in spreadsheet but not in Gmail: '' @
                                     quoted (join_with (dq @ '', '' @ dq) (c # cs)) @
                                     ''. These labels have been created in Gmail.'')
                                ''Labels Created in Gmail'' w
                          | _ \<Rightarrow> w);
                     w = (case addedToSheet r of
                            Some (a # as) \<Rightarrow>
                              toast (''Labels found in Gmail but not in spreadsheet: '' @
                                     quoted (join_with (dq @ '', '' @ dq) (a # as)) @
                                     ''. These labels have been added to spreadsheet.'')
                                ''Labels Added to Spreadsheet'' w
                          | _ \<Rightarrow> w)
                 in (Returned (), w))
              else (Returned (), toast ''Auto Sync complete: No changes needed'' ''Auto Sync Complete'' w)))"

text \<open>
  The part of \<^verbatim>\<open>onOpenWithFullPermissions\<close> after the menu is built; the argument is the
  persisted setting that \<^verbatim>\<open>getAutoSyncEnabled\<close> reads.
\<close>

definition onOpenWithFullPermissions :: "bool \<Rightarrow> world \<Rightarrow> world" where
  "onOpenWithFullPermissions autoSyncEnabled w =
     (let w = (if autoSyncEnabled
               then
                 (case syncAllLabels w of
                    (Raised msg, w) \<Rightarrow>
                      toast ''Auto sync failed - check logs'' ''Error''
                        (logError (''Auto sync failed: '' @ msg) w)
                  | (Returned results, w) \<Rightarrow>
                      (case showSyncResults results w of
                         (Raised msg, w) \<Rightarrow>
                           toast ''Auto sync failed - check logs'' ''Error''
                             (logError (''Auto sync failed: '' @ msg) w)
                       | (Returned u, w) \<Rightarrow> w))
               else w)
      in logDebug ''Full permissions menu created successfully'' w)"

subsection \<open>Notions used to state the properties\<close>

text \<open>What a name lookup through the directory client answers on a given account.\<close>

definition lookup_id :: "string \<Rightarrow> gmail \<Rightarrow> string option" where
  "lookup_id name g =
     truthy_get (case Gmail_Users_Labels_list g of
                   Inr (Some ls) \<Rightarrow> label_map_of ls
                 | _ \<Rightarrow> Map.empty) name"

text \<open>A well-formed account: no two labels share a name, and every label has a non-empty id.\<close>

definition wf_gmail :: "gmail \<Rightarrow> bool" where
  "wf_gmail g =
     (distinct (map rl_name (labels g)) \<and> list_all (\<lambda>l. rl_id l \<noteq> []) (labels g))"

text \<open>
  The ancestors that \<open>addParentLabelsToSheet\<close> creates in the account when it walks
  the given paths: those for which the lookup, made afresh at each step, finds nothing.
\<close>

fun created_parents :: "string list \<Rightarrow> gmail \<Rightarrow> string list" where
  "created_parents [] g = []"
| "created_parents (p # ps) g =
     (if lookup_id p g = None then p # created_parents ps (GmailApp_createLabel p g)
      else created_parents ps g)"

text \<open>
  The names for which step 2 of the sync calls \<open>createLabel\<close> while it handles one
  name of the sheet: none when the name is in the label map, else the ancestors that the
  map lacks and the name itself.
\<close>

definition sync_creates :: "(string \<rightharpoonup> string) \<Rightarrow> string \<Rightarrow> string list" where
  "sync_creates labelMap labelName =
     (if truthy_get labelMap labelName = None
      then filter (\<lambda>p. truthy_get labelMap p = None) (parent_paths labelName) @ [labelName]
      else [])"

text \<open>The state of a sync when step 2 is done, before the labels are listed again.\<close>

definition after_step2 :: "world \<Rightarrow> world" where
  "after_step2 w =
     fold (sync_label (fst (getLabelMap w)))
       (for_in (sheet_label_map (sheet w) (getLastRow (sheet w)))) (snd (getLabelMap w))"

text \<open>A call that creates a label, or acts through the object of a user label.\<close>

fun user_call :: "api_call \<Rightarrow> bool" where
  "user_call (CreateLabel n) = True"
| "user_call (AddToThreads l b) = (rl_type l = User)"
| "user_call (RemoveFromThreads l b) = (rl_type l = User)"
| "user_call (DeleteLabel l) = (rl_type l = User)"

text \<open>
  An operation that took the account from \<open>g\<close> to \<open>g'\<close> touched user labels only:
  the calls it added create labels or act through the object of a user label, and every
  label of type system is still there.
\<close>

definition user_only :: "gmail \<Rightarrow> gmail \<Rightarrow> bool" where
  "user_only g g' =
     ((\<exists>cs. calls g' = calls g @ cs \<and> list_all user_call cs) \<and>
      (\<forall>l\<in>set (labels g). rl_type l = System \<longrightarrow> l \<in> set (labels g')))"

text \<open>
  The account at the point of a rename where the ancestors of the new name have been
  ensured and the new label has just been created.
\<close>

definition after_new_label :: "string \<Rightarrow> world \<Rightarrow> gmail" where
  "after_new_label newLabelName w =
     GmailApp_createLabel newLabelName (gmail (addParentLabelsToSheet newLabelName w))"

text \<open>The calls an operation added to the record of calls.\<close>

definition new_calls :: "gmail \<Rightarrow> gmail \<Rightarrow> api_call list" where
  "new_calls g g' = drop (length (calls g)) (calls g')"

text \<open>The toasts among the entries of the log: what the user is shown.\<close>

definition toasts :: "world \<Rightarrow> log_entry list" where
  "toasts w = filter (\<lambda>e. case e of Toast m t \<Rightarrow> True | _ \<Rightarrow> False) (logs w)"

subsection \<open>Example states\<close>

text \<open>A sheet with the one row \<open>Work\<close> and an account without labels.\<close>

definition scenario1 :: world where
  "scenario1 =
     \<lparr>sheet = [\<lparr>id_cell = [], name_cell = ''Work''\<rparr>],
      gmail = \<lparr>labels = [], threads = [], next_id = 1, listing = ListOk, calls = []\<rparr>,
      logs = []\<rparr>"

text \<open>
  The label \<open>Old\<close> carried by three threads; the name cell of its row has just been
  emptied.
\<close>

definition old_label :: remote_label where
  "old_label = \<lparr>rl_id = ''Label_1'', rl_name = ''Old'', rl_type = User\<rparr>"

definition inbox_label :: remote_label where
  "inbox_label = \<lparr>rl_id = ''INBOX'', rl_name = ''INBOX'', rl_type = System\<rparr>"

definition scenario4 :: world where
  "scenario4 =
     \<lparr>sheet = [\<lparr>id_cell = ''Label_1'', name_cell = []\<rparr>],
      gmail = \<lparr>labels = [inbox_label, old_label],
               threads = [\<lparr>t_id = 1, t_labels = [''INBOX'', ''Label_1'']\<rparr>,
                          \<lparr>t_id = 2, t_labels = [''Label_1'']\<rparr>,
                          \<lparr>t_id = 3, t_labels = [''Label_1'']\<rparr>],
               next_id = 2, listing = ListOk, calls = []\<rparr>,
      logs = []\<rparr>"

text \<open>The same state with a label listing that raises.\<close>

definition listing_down :: world where
  "listing_down = scenario4\<lparr>gmail := (gmail scenario4)\<lparr>listing := ListThrows ''Service error''\<rparr>\<rparr>"

text \<open>The row of \<open>Old\<close> has just been renamed to \<open>New\<close>.\<close>

definition scenario5 :: world where
  "scenario5 = scenario4\<lparr>sheet := [\<lparr>id_cell = ''Label_1'', name_cell = ''New''\<rparr>]\<rparr>"

text \<open>A row that named the system label \<open>INBOX\<close> has just been renamed to \<open>X\<close>.\<close>

definition scenario_inbox :: world where
  "scenario_inbox = scenario4\<lparr>sheet := [\<lparr>id_cell = ''INBOX'', name_cell = ''X''\<rparr>]\<rparr>"

text \<open>The nested label \<open>A/B\<close> exists in the account without its parent; its name has just been typed into row 2.\<close>

definition nested_exists :: world where
  "nested_exists =
     \<lparr>sheet = [\<lparr>id_cell = [], name_cell = ''A/B''\<rparr>],
      gmail = \<lparr>labels = [\<lparr>rl_id = ''Label_1'', rl_name = ''A/B'', rl_type = User\<rparr>],
               threads = [], next_id = 2, listing = ListOk, calls = []\<rparr>,
      logs = []\<rparr>"

text \<open>The name \<open>Proj/Sub\<close> has just been typed into row 2; the account has no labels.\<close>

definition scenario3 :: world where
  "scenario3 =
     \<lparr>sheet = [\<lparr>id_cell = [], name_cell = ''Proj/Sub''\<rparr>],
      gmail = \<lparr>labels = [], threads = [], next_id = 1, listing = ListOk, calls = []\<rparr>,
      logs = []\<rparr>"

text \<open>The row \<open>Work\<close> and an account without labels whose listing answers without a payload.\<close>

definition no_payload :: world where
  "no_payload = scenario1\<lparr>gmail := (gmail scenario1)\<lparr>listing := ListNoPayload\<rparr>\<rparr>"

text \<open>The row \<open>Work\<close> and an account without labels whose listing raises.\<close>

definition listing_raises :: world where
  "listing_raises = scenario1\<lparr>gmail := (gmail scenario1)\<lparr>listing := ListThrows ''Service error''\<rparr>\<rparr>"

text \<open>A sheet with the one row \<open>/A\<close> and an account without labels.\<close>

definition leading_slash :: world where
  "leading_slash =
     \<lparr>sheet = [\<lparr>id_cell = [], name_cell = ''/A''\<rparr>],
      gmail = \<lparr>labels = [], threads = [], next_id = 1, listing = ListOk, calls = []\<rparr>,
      logs = []\<rparr>"

text \<open>A row that named the system label \<open>INBOX\<close> has just been emptied.\<close>

definition inbox_cleared :: world where
  "inbox_cleared = scenario4\<lparr>sheet := [\<lparr>id_cell = ''INBOX'', name_cell = []\<rparr>]\<rparr>"

section \<open>Basic facts\<close>

lemmas example_defs = scenario1_def scenario4_def old_label_def inbox_label_def listing_down_def inbox_cleared_def
  scenario5_def scenario_inbox_def scenario3_def nested_exists_def no_payload_def listing_raises_def
  leading_slash_def

subsection \<open>Projections and lookups\<close>

lemma logDebug_proj [simp]:
  "sheet (logDebug m w) = sheet w" "gmail (logDebug m w) = gmail w"
  by (simp_all add: logDebug_def)

lemma logError_proj [simp]:
  "sheet (logError m w) = sheet w" "gmail (logError m w) = gmail w"
  "logs (logError m w) = logs w @ [Error (''[ERROR] '' @ m)]"
  by (simp_all add: logError_def)

lemma toast_proj [simp]:
  "sheet (toast m t w) = sheet w" "gmail (toast m t w) = gmail w"
  "logs (toast m t w) = logs w @ [Toast m t]"
  by (simp_all add: toast_def)

lemma on_sheet_proj [simp]:
  "sheet (on_sheet f w) = f (sheet w)" "gmail (on_sheet f w) = gmail w"
  "logs (on_sheet f w) = logs w"
  by (simp_all add: on_sheet_def)

lemma on_gmail_proj [simp]:
  "sheet (on_gmail f w) = sheet w" "gmail (on_gmail f w) = f (gmail w)"
  "logs (on_gmail f w) = logs w"
  by (simp_all add: on_gmail_def)

lemma truthy_simps [simp]:
  "truthy None = None" "truthy (Some []) = None" "s \<noteq> [] \<Longrightarrow> truthy (Some s) = Some s"
  by (simp_all add: truthy_def)

lemma truthy_SomeD: "truthy v = Some s \<Longrightarrow> v = Some s \<and> s \<noteq> []"
  by (auto simp: truthy_def split: option.splits if_splits)

lemma getLabelMap_proj [simp]:
  "sheet (snd (getLabelMap w)) = sheet w" "gmail (snd (getLabelMap w)) = gmail w"
  by (simp_all add: getLabelMap_def split: sum.splits option.splits)

lemma getLabelId_proj [simp]:
  "sheet (snd (getLabelId n w)) = sheet w" "gmail (snd (getLabelId n w)) = gmail w"
  by (simp_all add: getLabelId_def split: prod.splits)
     (metis getLabelMap_proj snd_conv)+

lemma proto_member_proto [simp]: "proto_member proto_key"
  by (simp add: proto_member_def proto_key_def)

lemma member_text_nonempty [simp]: "member_text k \<noteq> []"
  by (simp add: member_text_def)

lemma proto_member_no_sep: "proto_member k \<Longrightarrow> CHR ''/'' \<notin> set k"
  by (auto simp: proto_member_def)

lemma proto_member_nonempty: "proto_member k \<Longrightarrow> k \<noteq> []"
  by (auto simp: proto_member_def)

lemma truthy_get_empty [simp]:
  "truthy_get Map.empty k = (if proto_member k then Some (member_text k) else None)"
  by (simp add: truthy_get_def)

lemma truthy_get_SomeD:
  "truthy_get m k = Some i \<Longrightarrow> i \<noteq> [] \<and> (m k = Some i \<or> (m k = None \<and> proto_member k))"
  by (auto simp: truthy_get_def truthy_def split: option.splits if_splits)

lemma truthy_get_own: "m k = Some i \<Longrightarrow> i \<noteq> [] \<Longrightarrow> truthy_get m k = Some i"
  by (simp add: truthy_get_def)

lemma truthy_get_inherited: "proto_member k \<Longrightarrow> m k = None \<Longrightarrow> truthy_get m k = Some (member_text k)"
  by (simp add: truthy_get_def)

lemma truthy_get_missing: "\<not> proto_member k \<Longrightarrow> m k = None \<Longrightarrow> truthy_get m k = None"
  by (simp add: truthy_get_def)

lemma getLabelId_fst [simp]: "fst (getLabelId n w) = lookup_id n (gmail w)"
  by (auto simp: getLabelId_def lookup_id_def getLabelMap_def split: prod.splits sum.splits option.splits)

lemma label_map_of_eq:
  "label_map_of ls =
     map_of (rev (map (\<lambda>l. (rl_name l, rl_id l)) (filter (\<lambda>l. rl_name l \<noteq> proto_key) ls)))"
proof -
  have "fold (\<lambda>label labelMap. obj_put labelMap (rl_name label) (rl_id label)) ls m
        = m ++ map_of (rev (map (\<lambda>l. (rl_name l, rl_id l)) (filter (\<lambda>l. rl_name l \<noteq> proto_key) ls)))"
    for m
    by (induction ls arbitrary: m)
       (auto simp: obj_put_def map_add_upd_left fun_eq_iff map_add_def split: option.splits)
  then show ?thesis by (simp add: label_map_of_def)
qed

lemma label_map_of_dom: "dom (label_map_of ls) = set (map rl_name ls) - {proto_key}"
  by (auto simp: label_map_of_eq dom_map_of_conv_image_fst image_iff)

lemma label_map_of_Some: "label_map_of ls n = Some i \<Longrightarrow> \<exists>l\<in>set ls. rl_name l = n \<and> rl_id l = i"
  by (auto simp: label_map_of_eq dest!: map_of_SomeD)

lemma label_map_of_None_iff:
  "label_map_of ls n = None \<longleftrightarrow> n \<notin> set (map rl_name ls) \<or> n = proto_key"
  using label_map_of_dom[of ls] by (auto simp: domIff)

lemmas config_defs = HEADER_ROW_def LABEL_ID_COLUMN_def NAME_COLUMN_def

lemma getValue_setValue:
  "getValue r c (setValue r' c' v s) =
     (if r = r' \<and> c = c' \<and> HEADER_ROW < r' \<and> (c' = LABEL_ID_COLUMN \<or> c' = NAME_COLUMN) then v
      else getValue r c s)"
proof (cases "r' \<le> 1")
  case True
  then show ?thesis by (simp add: setValue_def config_defs)
next
  case False
  define i where "i = r' - Suc (Suc 0)"
  define s' where "s' = s @ replicate (Suc i - length s) blank_row"
  have len: "i < length s'" by (simp add: s'_def)
  have sv: "setValue r' c' v s =
      s'[i := (if c' = 1 then (s' ! i)\<lparr>id_cell := v\<rparr>
               else if c' = 2 then (s' ! i)\<lparr>name_cell := v\<rparr> else s' ! i)]"
    using False by (simp add: setValue_def Let_def i_def s'_def config_defs)
  have s'1: "t < length s \<Longrightarrow> s' ! t = s ! t" for t by (simp add: s'_def nth_append)
  have s'2: "length s \<le> t \<Longrightarrow> t < length s' \<Longrightarrow> s' ! t = blank_row" for t
    by (simp add: s'_def nth_append)
  have s'3: "length s \<le> length s'" by (simp add: s'_def)
  show ?thesis
  proof (cases "r \<le> 1")
    case True
    then show ?thesis using False by (auto simp: getValue_def config_defs)
  next
    case r: False
    define j where "j = r - Suc (Suc 0)"
    have eq: "j = i \<longleftrightarrow> r = r'" using r False by (auto simp: i_def j_def)
    have gv: "getValue r c t = (if length t \<le> j then [] else if c = 1 then id_cell (t ! j)
        else if c = 2 then name_cell (t ! j) else [])" for t
      using r by (simp add: getValue_def config_defs j_def)
    have r'1: "HEADER_ROW < r'" using False by (simp add: config_defs)
    have cases: "j < length s \<or> (length s \<le> j \<and> j < length s') \<or> length s' \<le> j" by linarith
    show ?thesis
      unfolding sv gv using len eq r'1 s'3 cases
      by (cases "j = i") (auto simp: nth_list_update config_defs s'1 s'2 blank_row_def)
  qed
qed

lemma getValue_clearContent:
  "getValue r c (clearContent r' c' s) =
     (if r = r' \<and> c = c' \<and> HEADER_ROW < r' \<and> (c' = LABEL_ID_COLUMN \<or> c' = NAME_COLUMN) then []
      else getValue r c s)"
  by (simp add: clearContent_def getValue_setValue)

lemma lookup_id_unavailable:
  "listing g \<noteq> ListOk \<Longrightarrow> lookup_id n g = (if proto_member n then Some (member_text n) else None)"
  by (cases "listing g") (simp_all add: lookup_id_def Gmail_Users_Labels_list_def)

lemma lookup_id_ListOk: "listing g = ListOk \<Longrightarrow> lookup_id n g = truthy_get (label_map_of (labels g)) n"
  by (simp add: lookup_id_def Gmail_Users_Labels_list_def)

lemma lookup_id_SomeD: "lookup_id n g = Some i \<Longrightarrow> (n \<in> remote_names g \<or> proto_member n) \<and> i \<noteq> []"
  by (cases "listing g")
     (auto simp: lookup_id_def Gmail_Users_Labels_list_def remote_names_def
           dest!: truthy_get_SomeD label_map_of_Some split: if_splits)

lemma lookup_id_proto:
  assumes "proto_member n" "wf_gmail g"
  shows "lookup_id n g \<noteq> None"
proof (cases "listing g = ListOk")
  case True
  show ?thesis
  proof (cases "label_map_of (labels g) n")
    case None
    then show ?thesis using True assms(1) by (simp add: lookup_id_ListOk truthy_get_def)
  next
    case (Some i)
    then obtain l where "l \<in> set (labels g)" "rl_id l = i"
      using label_map_of_Some by blast
    then have "i \<noteq> []" using assms(2) by (auto simp: wf_gmail_def list_all_iff)
    then show ?thesis using True Some by (simp add: lookup_id_ListOk truthy_get_def)
  qed
next
  case False
  then show ?thesis using assms(1) by (simp add: lookup_id_unavailable)
qed

lemma label_map_of_distinct:
  "distinct (map rl_name ls) \<Longrightarrow> l \<in> set ls \<Longrightarrow> rl_name l \<noteq> proto_key \<Longrightarrow>
   label_map_of ls (rl_name l) = Some (rl_id l)"
  by (simp add: label_map_of_eq)
     (rule map_of_is_SomeI, auto simp: rev_map[symmetric] comp_def distinct_map_filter)

lemma lookup_id_wf:
  assumes "listing g = ListOk" "wf_gmail g" "l \<in> set (labels g)" "rl_name l \<noteq> proto_key"
  shows "lookup_id (rl_name l) g = Some (rl_id l)"
  using assms
  by (auto simp: lookup_id_ListOk wf_gmail_def label_map_of_distinct list_all_iff truthy_get_own)

lemma lookup_id_found:
  assumes "listing g = ListOk" "wf_gmail g" "l \<in> set (labels g)"
  shows "lookup_id (rl_name l) g \<noteq> None"
proof (cases "rl_name l = proto_key")
  case True
  then show ?thesis using assms(2) by (simp add: lookup_id_proto)
next
  case False
  then show ?thesis using lookup_id_wf[OF assms] by simp
qed

lemma lookup_id_None_iff:
  assumes "listing g = ListOk" "wf_gmail g"
  shows "lookup_id n g = None \<longleftrightarrow> n \<notin> remote_names g \<and> \<not> proto_member n"
proof
  assume "lookup_id n g = None"
  then show "n \<notin> remote_names g \<and> \<not> proto_member n"
    using lookup_id_found[OF assms] lookup_id_proto[of n g] assms(2)
    by (fastforce simp: remote_names_def)
next
  assume "n \<notin> remote_names g \<and> \<not> proto_member n"
  then show "lookup_id n g = None"
    using lookup_id_SomeD[of n g] by (cases "lookup_id n g") auto
qed

lemma getUserLabelByName_Some:
  assumes "distinct (map rl_name (labels g))" "l \<in> set (labels g)" "rl_type l = User"
  shows "GmailApp_getUserLabelByName (rl_name l) g = Some l"
proof -
  obtain x where x: "find (\<lambda>k. rl_name k = rl_name l \<and> rl_type k = User) (labels g) = Some x"
    using assms by (cases "find (\<lambda>k. rl_name k = rl_name l \<and> rl_type k = User) (labels g)")
      (auto simp: find_None_iff)
  then have "x \<in> set (labels g)" "rl_name x = rl_name l"
    by (auto simp: find_Some_iff)
  with assms have "x = l"
    by (meson distinct_map inj_onD)
  with x show ?thesis by (simp add: GmailApp_getUserLabelByName_def)
qed

subsection \<open>Creating labels\<close>

lemma createLabel_fields [simp]:
  "threads (GmailApp_createLabel n g) = threads g"
  "listing (GmailApp_createLabel n g) = listing g"
  "calls (GmailApp_createLabel n g) = calls g @ [CreateLabel n]"
  by (simp_all add: GmailApp_createLabel_def)

lemma createLabel_labels:
  "labels (GmailApp_createLabel n g) =
     labels g @ (if n \<in> remote_names g then []
                 else [\<lparr>rl_id = ''Label_'' @ show_nat (next_id g), rl_name = n, rl_type = User\<rparr>])"
  by (simp add: GmailApp_createLabel_def remote_names_def)

lemma createLabel_names [simp]: "remote_names (GmailApp_createLabel n g) = insert n (remote_names g)"
  by (auto simp: remote_names_def createLabel_labels)

lemma createLabel_wf: "wf_gmail g \<Longrightarrow> wf_gmail (GmailApp_createLabel n g)"
  by (auto simp: wf_gmail_def createLabel_labels remote_names_def)

lemma createLabel_present: "n \<in> remote_names g \<Longrightarrow> labels (GmailApp_createLabel n g) = labels g"
  by (simp add: createLabel_labels)

lemma fold_create_fields [simp]:
  "threads (fold GmailApp_createLabel ps g) = threads g"
  "listing (fold GmailApp_createLabel ps g) = listing g"
  "calls (fold GmailApp_createLabel ps g) = calls g @ map CreateLabel ps"
  "remote_names (fold GmailApp_createLabel ps g) = remote_names g \<union> set ps"
  by (induction ps arbitrary: g) auto

lemma fold_create_wf: "wf_gmail g \<Longrightarrow> wf_gmail (fold GmailApp_createLabel ps g)"
  by (induction ps arbitrary: g) (auto simp: createLabel_wf)

lemma fold_create_labels:
  "\<exists>new. labels (fold GmailApp_createLabel ps g) = labels g @ new
        \<and> list_all (\<lambda>l. rl_type l = User \<and> rl_name l \<in> set ps - remote_names g) new"
proof (induction ps arbitrary: g)
  case Nil
  then show ?case by simp
next
  case (Cons p ps)
  obtain new where new: "labels (fold GmailApp_createLabel ps (GmailApp_createLabel p g))
      = labels (GmailApp_createLabel p g) @ new"
    "list_all (\<lambda>l. rl_type l = User \<and> rl_name l \<in> set ps - remote_names (GmailApp_createLabel p g)) new"
    using Cons.IH by blast
  show ?case
    using new by (auto simp: createLabel_labels list_all_iff)
qed

lemma find_app: "find P (xs @ ys) = (case find P xs of Some x \<Rightarrow> Some x | None \<Rightarrow> find P ys)"
  by (induction xs) auto

lemma getUserLabelByName_append:
  assumes "labels g' = labels g @ new" "list_all (\<lambda>l. rl_name l \<noteq> n) new"
  shows "GmailApp_getUserLabelByName n g' = GmailApp_getUserLabelByName n g"
proof -
  have "find (\<lambda>l. rl_name l = n \<and> rl_type l = User) new = None"
    using assms(2) by (auto simp: find_None_iff list_all_iff)
  then show ?thesis
    by (simp add: GmailApp_getUserLabelByName_def assms(1) find_app split: option.splits)
qed

lemma search_label_append:
  assumes "labels g' = labels g @ new" "list_all (\<lambda>l. rl_name l \<noteq> n) new" "threads g' = threads g"
  shows "GmailApp_search_label n g' = GmailApp_search_label n g"
proof -
  have "list_ex (\<lambda>l. rl_name l = n \<and> P l) new = False" for P
    using assms(2) by (auto simp: list_ex_iff list_all_iff)
  then show ?thesis
    by (simp add: GmailApp_search_label_def assms(1,3))
qed

lemma fold_create_keeps_present:
  assumes "n \<in> remote_names g"
  shows "GmailApp_getUserLabelByName n (fold GmailApp_createLabel ps g) = GmailApp_getUserLabelByName n g"
    and "GmailApp_search_label n (fold GmailApp_createLabel ps g) = GmailApp_search_label n g"
proof -
  obtain new where new: "labels (fold GmailApp_createLabel ps g) = labels g @ new"
    "list_all (\<lambda>l. rl_type l = User \<and> rl_name l \<in> set ps - remote_names g) new"
    using fold_create_labels by blast
  have ne: "list_all (\<lambda>l. rl_name l \<noteq> n) new"
    using new(2) assms by (auto simp: list_all_iff)
  show "GmailApp_getUserLabelByName n (fold GmailApp_createLabel ps g) = GmailApp_getUserLabelByName n g"
    by (rule getUserLabelByName_append[OF new(1) ne])
  show "GmailApp_search_label n (fold GmailApp_createLabel ps g) = GmailApp_search_label n g"
    by (rule search_label_append[OF new(1) ne]) simp
qed

subsection \<open>Ancestors in the account\<close>

lemma addParents_loop_gmail:
  "gmail (addParents_loop lastRow parts acc added slm w) =
     fold GmailApp_createLabel (created_parents (paths_from acc parts) (gmail w)) (gmail w)"
proof (induction parts arbitrary: acc added slm w)
  case Nil
  then show ?case by simp
next
  case (Cons part parts)
  show ?case
    by (simp add: Let_def case_prod_beta Cons.IH split: option.splits)
qed

lemma addParentLabelsToSheet_gmail:
  "gmail (addParentLabelsToSheet n w) =
     fold GmailApp_createLabel (created_parents (parent_paths n) (gmail w)) (gmail w)"
proof (cases "CHR ''/'' \<in> set n")
  case True
  then show ?thesis by (simp add: addParentLabelsToSheet_def Let_def addParents_loop_gmail parent_paths_def)
next
  case False
  have "split_on CHR ''/'' n = [n]"
    using False by (induction n) (auto split: list.splits)
  then show ?thesis using False by (simp add: addParentLabelsToSheet_def parent_paths_def)
qed

lemma created_parents_subset: "set (created_parents ps g) \<subseteq> set ps"
  by (induction ps arbitrary: g) auto


subsection \<open>Batches\<close>

lemma add_batches_effect:
  "calls (add_batches l ths i g) = calls g @ map (AddToThreads l) (thread_batches ths i)
   \<and> labels (add_batches l ths i g) = labels g \<and> listing (add_batches l ths i g) = listing g"
proof (induction l ths i g rule: add_batches.induct)
  case (1 l ths i g)
  show ?case
  proof (cases "i < length ths")
    case True
    then have ne: "take BATCH_SIZE (drop i ths) \<noteq> []" by (simp add: BATCH_SIZE_def)
    show ?thesis
      using True ne "1.IH"[OF True refl]
      by (subst add_batches.simps, subst (2) add_batches.simps, subst (3) add_batches.simps,
          subst thread_batches.simps) (simp add: Let_def addToThreads_def)
  next
    case False
    then show ?thesis
      by (subst add_batches.simps, subst (2) add_batches.simps, subst (3) add_batches.simps,
          subst thread_batches.simps) simp
  qed
qed

lemma remove_batches_effect:
  "calls (remove_batches l ths i g) = calls g @ map (RemoveFromThreads l) (thread_batches ths i)
   \<and> labels (remove_batches l ths i g) = labels g \<and> listing (remove_batches l ths i g) = listing g"
proof (induction l ths i g rule: remove_batches.induct)
  case (1 l ths i g)
  show ?case
  proof (cases "i < length ths")
    case True
    then have ne: "take BATCH_SIZE (drop i ths) \<noteq> []" by (simp add: BATCH_SIZE_def)
    show ?thesis
      using True ne "1.IH"[OF True refl]
      by (subst remove_batches.simps, subst (2) remove_batches.simps, subst (3) remove_batches.simps,
          subst thread_batches.simps) (simp add: Let_def removeFromThreads_def)
  next
    case False
    then show ?thesis
      by (subst remove_batches.simps, subst (2) remove_batches.simps, subst (3) remove_batches.simps,
          subst thread_batches.simps) simp
  qed
qed

lemma thread_batches_concat: "concat (thread_batches ths i) = drop i ths"
proof (induction ths i rule: thread_batches.induct)
  case (1 ths i)
  show ?case
  proof (cases "i < length ths")
    case True
    have "take BATCH_SIZE (drop i ths) @ drop (i + BATCH_SIZE) ths = drop i ths"
      by (metis add.commute append_take_drop_id drop_drop)
    then show ?thesis
      using True "1.IH"[OF True] by (subst thread_batches.simps) simp
  next
    case False
    then show ?thesis by (subst thread_batches.simps) simp
  qed
qed

lemma thread_batches_lengths:
  "map length (thread_batches ths i) =
     replicate ((length ths - i) div BATCH_SIZE) BATCH_SIZE @
     (if (length ths - i) mod BATCH_SIZE = 0 then [] else [(length ths - i) mod BATCH_SIZE])"
proof (induction ths i rule: thread_batches.induct)
  case (1 ths i)
  define n where "n = length ths - i"
  show ?case
  proof (cases "i < length ths")
    case True
    note IH = "1.IH"[OF True]
    have rest: "length ths - (i + BATCH_SIZE) = n - BATCH_SIZE" by (simp add: n_def)
    show ?thesis
    proof (cases "BATCH_SIZE \<le> n")
      case big: True
      have d: "n div BATCH_SIZE = Suc ((n - BATCH_SIZE) div BATCH_SIZE)"
        using big by (simp add: BATCH_SIZE_def le_div_geq)
      have m: "n mod BATCH_SIZE = (n - BATCH_SIZE) mod BATCH_SIZE"
        using big by (simp add: le_mod_geq)
      have l: "length (take BATCH_SIZE (drop i ths)) = BATCH_SIZE"
        using big by (simp add: n_def)
      show ?thesis
        using True IH l
        by (subst thread_batches.simps) (simp add: rest n_def[symmetric] d m)
    next
      case small: False
      then have d: "n div BATCH_SIZE = 0" "n mod BATCH_SIZE = n" by simp_all
      have n0: "n \<noteq> 0" using True by (simp add: n_def)
      have stop: "thread_batches ths (i + BATCH_SIZE) = []"
        using small by (subst thread_batches.simps) (simp add: n_def)
      have l: "length (take BATCH_SIZE (drop i ths)) = n"
        using small by (simp add: n_def)
      show ?thesis
        using True l n0
        by (subst thread_batches.simps) (simp add: stop n_def[symmetric] d)
    qed
  next
    case False
    then show ?thesis by (subst thread_batches.simps) simp
  qed
qed

lemma thread_batches_250:
  assumes "length ths = 250"
  shows "map length (thread_batches ths 0) = [100, 100, 50]"
proof -
  have r: "replicate 2 x = [x, x]" for x :: nat by (simp add: numeral_2_eq_2)
  have d: "(250::nat) div 100 = 2" "(250::nat) mod 100 = 50" by simp_all
  show ?thesis
    unfolding thread_batches_lengths assms BATCH_SIZE_def minus_nat.diff_0 d r by simp
qed

subsection \<open>Ancestors in the sheet\<close>

lemma addParents_loop_keeps_rows:
  "r \<le> lastRow + added \<Longrightarrow>
   getValue r c (sheet (addParents_loop lastRow parts acc added slm w)) = getValue r c (sheet w)"
proof (induction parts arbitrary: acc added slm w)
  case Nil
  then show ?case by simp
next
  case (Cons part parts)
  show ?case
    using Cons.prems
    by (simp add: Let_def case_prod_beta Cons.IH getValue_setValue split: option.splits)
qed

lemma addParentLabelsToSheet_keeps_rows:
  "r \<le> getLastRow (sheet w) \<Longrightarrow>
   getValue r c (sheet (addParentLabelsToSheet n w)) = getValue r c (sheet w)"
  using addParents_loop_keeps_rows[of r "getLastRow (sheet w)" 0]
  by (simp add: addParentLabelsToSheet_def Let_def)

lemma new_calls_append [simp]: "calls g' = calls g @ cs \<Longrightarrow> new_calls g g' = cs"
  by (simp add: new_calls_def)

lemma wf_distinct_labels: "wf_gmail g \<Longrightarrow> distinct (labels g)"
  by (auto simp: wf_gmail_def distinct_map)

lemma wf_same_name:
  "wf_gmail g \<Longrightarrow> l \<in> set (labels g) \<Longrightarrow> k \<in> set (labels g) \<Longrightarrow> rl_name l = rl_name k \<Longrightarrow> l = k"
  by (auto simp: wf_gmail_def distinct_map dest: inj_onD)

lemma addParents_loop_sheet_cong:
  "sheet w = sheet w' \<Longrightarrow> gmail w = gmail w' \<Longrightarrow>
   sheet (addParents_loop lastRow parts acc added slm w) =
   sheet (addParents_loop lastRow parts acc added slm w')"
proof (induction parts arbitrary: acc added slm w w')
  case Nil
  then show ?case by simp
next
  case (Cons part parts)
  show ?case
    using Cons.prems
    by (auto simp: Let_def case_prod_beta split: option.splits intro!: Cons.IH)
qed

lemma addParentLabelsToSheet_sheet_cong:
  "sheet w = sheet w' \<Longrightarrow> gmail w = gmail w' \<Longrightarrow>
   sheet (addParentLabelsToSheet n w) = sheet (addParentLabelsToSheet n w')"
  by (auto simp: addParentLabelsToSheet_def Let_def intro!: addParents_loop_sheet_cong)

lemma updateLabel_found:
  assumes "lookup_id old (gmail w) = Some oid"
  shows "gmail (updateLabel row old new w) =
     (case lookup_id new (after_new_label new w) of
        None \<Rightarrow> after_new_label new w
      | Some nid \<Rightarrow>
          (case (GmailApp_getUserLabelByName old (after_new_label new w),
                 GmailApp_getUserLabelByName new (after_new_label new w)) of
             (Some oldLabel, Some newLabel) \<Rightarrow>
               label_deleteLabel oldLabel
                 (remove_batches oldLabel (GmailApp_search_label old (gmail (addParentLabelsToSheet new w))) 0
                   (add_batches newLabel (GmailApp_search_label old (gmail (addParentLabelsToSheet new w))) 0
                     (after_new_label new w)))
           | _ \<Rightarrow> after_new_label new w))"
  using assms(1)
  by (simp add: updateLabel_def Let_def case_prod_beta after_new_label_def addParentLabelsToSheet_gmail
      split: option.splits)

lemma updateLabel_found_sheet:
  assumes "lookup_id old (gmail w) = Some oid"
  shows "sheet (updateLabel row old new w) =
     (case lookup_id new (after_new_label new w) of
        None \<Rightarrow> sheet (addParentLabelsToSheet new w)
      | Some nid \<Rightarrow>
          (case (GmailApp_getUserLabelByName old (after_new_label new w),
                 GmailApp_getUserLabelByName new (after_new_label new w)) of
             (Some oldLabel, Some newLabel) \<Rightarrow>
               setValue row LABEL_ID_COLUMN nid (sheet (addParentLabelsToSheet new w))
           | _ \<Rightarrow> sheet (addParentLabelsToSheet new w)))"
proof -
  have "sheet (addParentLabelsToSheet new (snd (getLabelId old (logDebug m w)))) =
        sheet (addParentLabelsToSheet new w)" for m
    by (rule addParentLabelsToSheet_sheet_cong) simp_all
  then show ?thesis
    using assms(1)
    by (simp add: updateLabel_def Let_def case_prod_beta after_new_label_def addParentLabelsToSheet_gmail
        split: option.splits)
qed

lemma after_new_label_eq:
  "after_new_label new w =
     fold GmailApp_createLabel (created_parents (parent_paths new) (gmail w) @ [new]) (gmail w)"
  by (simp add: after_new_label_def addParentLabelsToSheet_gmail)

lemma after_new_label_calls:
  "calls (after_new_label new w) =
     calls (gmail w) @ map CreateLabel (created_parents (parent_paths new) (gmail w)) @ [CreateLabel new]"
  by (simp add: after_new_label_eq)

subsection \<open>Paths\<close>

lemma split_on_nonempty [simp]: "split_on c s \<noteq> []"
  by (induction s) (auto split: list.splits)

lemma split_on_no_sep: "c \<notin> set s \<Longrightarrow> split_on c s = [s]"
  by (induction s) (auto split: list.splits)

lemma split_on_hd: "s \<noteq> [] \<Longrightarrow> hd s \<noteq> c \<Longrightarrow> hd (split_on c s) \<noteq> []"
  by (cases s) (auto split: list.splits)

lemma join_with_Cons: "join_with sep (p # ps) = p @ concat (map (\<lambda>q. sep @ q) ps)"
  by (induction ps arbitrary: p) auto

lemma extend_path_nonempty: "acc \<noteq> [] \<Longrightarrow> extend_path acc part = acc @ ''/'' @ part"
  by (simp add: extend_path_def)

lemma upt_shift: "[0 ..< Suc n] = 0 # map Suc [0 ..< n]"
  by (simp add: upt_conv_Cons map_Suc_upt del: upt_Suc)

lemma slash_append: "(@) ''/'' = (#) CHR ''/''"
  by (simp add: fun_eq_iff)

lemma paths_from_nonempty:
  "acc \<noteq> [] \<Longrightarrow>
   paths_from acc ps = map (\<lambda>k. acc @ concat (map (\<lambda>q. ''/'' @ q) (take (Suc k) ps))) [0 ..< length ps]"
proof (induction ps arbitrary: acc)
  case Nil
  then show ?case by simp
next
  case (Cons p ps)
  have e: "extend_path acc p = acc @ ''/'' @ p" using Cons.prems by (simp add: extend_path_def)
  have ne: "acc @ ''/'' @ p \<noteq> []" by simp
  note IH = Cons.IH[OF ne]
  show ?case
    unfolding paths_from.simps e IH upt_shift[of "length ps", folded length_Cons[of p ps]]
    by (simp add: comp_def slash_append)
qed

lemma parent_paths_eq_ancestor_paths:
  assumes "name \<noteq> []" "hd name \<noteq> CHR ''/''"
  shows "parent_paths name = ancestor_paths name"
proof -
  obtain x rest where parts: "split_on CHR ''/'' name = x # rest"
    by (cases "split_on CHR ''/'' name") auto
  have x: "x \<noteq> []" using split_on_hd[OF assms] parts by simp
  show ?thesis
  proof (cases rest)
    case Nil
    then show ?thesis by (simp add: parent_paths_def ancestor_paths_def parts)
  next
    case (Cons y ys)
    have bl: "butlast (x # rest) = x # butlast rest" using Cons by simp
    have idx: "[1 ..< length (x # rest)] = map Suc [0 ..< length rest]"
      by (simp add: map_Suc_upt del: upt_Suc)
    have idx2: "[0 ..< length rest] = 0 # map Suc [0 ..< length (butlast rest)]"
      using Cons upt_shift[of "length ys"] by simp
    have tk: "k < length (butlast rest) \<Longrightarrow> take (Suc k) (butlast rest) = take (Suc k) rest" for k
      by (simp add: take_butlast)
    have "paths_from [] (butlast (x # rest)) =
        x # map (\<lambda>k. x @ concat (map (\<lambda>q. ''/'' @ q) (take (Suc k) (butlast rest))))
              [0 ..< length (butlast rest)]"
      using x Cons by (simp add: extend_path_def paths_from_nonempty del: upt_Suc)
    also have "\<dots> = x # map (\<lambda>k. x @ concat (map (\<lambda>q. ''/'' @ q) (take (Suc k) rest)))
              [0 ..< length (butlast rest)]"
      using tk by simp
    also have "\<dots> = map (\<lambda>k. join_with ''/'' (take k (x # rest))) [1 ..< length (x # rest)]"
      unfolding idx idx2 by (simp add: join_with_Cons comp_def del: upt_Suc)
    finally show ?thesis by (simp add: parent_paths_def ancestor_paths_def parts)
  qed
qed

lemma paths_from_longer: "acc \<noteq> [] \<Longrightarrow> q \<in> set (paths_from acc ps) \<Longrightarrow> length acc < length q"
proof (induction ps arbitrary: acc)
  case Nil
  then show ?case by simp
next
  case (Cons p ps)
  have acc': "extend_path acc p \<noteq> []" "length acc < length (extend_path acc p)"
    using Cons.prems(1) by (simp_all add: extend_path_def)
  show ?case
    using Cons.prems(2) acc' Cons.IH[OF acc'(1)] by auto
qed

lemma paths_from_distinct: "acc \<noteq> [] \<Longrightarrow> distinct (paths_from acc ps)"
proof (induction ps arbitrary: acc)
  case Nil
  then show ?case by simp
next
  case (Cons p ps)
  have acc': "extend_path acc p \<noteq> []" using Cons.prems by (simp add: extend_path_def)
  show ?case
    using Cons.IH[OF acc'] paths_from_longer[OF acc', where q = "extend_path acc p" and ps = ps] by auto
qed

lemma ancestor_paths_wellformed:
  assumes "name \<noteq> []" "hd name \<noteq> CHR ''/''"
  shows "distinct (ancestor_paths name) \<and> [] \<notin> set (ancestor_paths name)"
proof -
  obtain x rest where parts: "split_on CHR ''/'' name = x # rest"
    by (cases "split_on CHR ''/'' name") auto
  have x: "x \<noteq> []" using split_on_hd[OF assms] parts by simp
  have eq: "ancestor_paths name = paths_from [] (butlast (x # rest))"
    using parent_paths_eq_ancestor_paths[OF assms] by (simp add: parent_paths_def parts)
  show ?thesis
  proof (cases rest)
    case Nil
    then show ?thesis by (simp add: eq)
  next
    case (Cons y ys)
    then have "ancestor_paths name = x # paths_from x (butlast rest)"
      using x by (simp add: eq extend_path_def)
    then show ?thesis
      using x paths_from_distinct[OF x, where ps = "butlast rest"]
        paths_from_longer[OF x, where q = x and ps = "butlast rest"]
        paths_from_longer[OF x, where q = "[]" and ps = "butlast rest"]
      by auto
  qed
qed


subsection \<open>Names in the sheet\<close>

lemma getValue_name_nth:
  "i < length s \<Longrightarrow> getValue (i + 2) NAME_COLUMN s = name_cell (s ! i)"
  by (simp add: getValue_def config_defs)

lemma getValue_nonempty_index:
  assumes "getValue r NAME_COLUMN s \<noteq> []"
  shows "1 < r \<and> r - 2 < length s \<and> getValue r NAME_COLUMN s = name_cell (s ! (r - 2))"
  using assms by (auto simp: getValue_def config_defs numeral_2_eq_2 split: if_splits)

lemma local_names_iff:
  "n \<in> local_names s \<longleftrightarrow> n \<noteq> [] \<and> (\<exists>r. getValue r NAME_COLUMN s = n)"
proof
  assume "n \<in> local_names s"
  then obtain i where "i < length s" "name_cell (s ! i) = n" "n \<noteq> []"
    by (auto simp: local_names_def in_set_conv_nth)
  then show "n \<noteq> [] \<and> (\<exists>r. getValue r NAME_COLUMN s = n)"
    using getValue_name_nth[of i s] by blast
next
  assume a: "n \<noteq> [] \<and> (\<exists>r. getValue r NAME_COLUMN s = n)"
  then obtain r where r: "getValue r NAME_COLUMN s = n" by blast
  with a have "r - 2 < length s \<and> n = name_cell (s ! (r - 2))"
    using getValue_nonempty_index[of r s] by simp
  with a show "n \<in> local_names s"
    by (auto simp: local_names_def)
qed

lemma blank_tail:
  "length (dropWhile P (rev s)) \<le> k \<longleftrightarrow> (\<forall>i. k \<le> i \<and> i < length s \<longrightarrow> P (s ! i))"
proof (induction s arbitrary: k rule: rev_induct)
  case Nil
  then show ?case by simp
next
  case (snoc x xs)
  show ?case
  proof (cases "P x")
    case True
    have "(\<forall>i. k \<le> i \<and> i < Suc (length xs) \<longrightarrow> P ((xs @ [x]) ! i)) \<longleftrightarrow>
          (\<forall>i. k \<le> i \<and> i < length xs \<longrightarrow> P (xs ! i))"
      using True by (auto simp: nth_append less_Suc_eq)
    then show ?thesis using True snoc.IH[of k] by simp
  next
    case False
    have "(\<forall>i. k \<le> i \<and> i < Suc (length xs) \<longrightarrow> P ((xs @ [x]) ! i)) \<longleftrightarrow> Suc (length xs) \<le> k"
    proof
      assume a: "\<forall>i. k \<le> i \<and> i < Suc (length xs) \<longrightarrow> P ((xs @ [x]) ! i)"
      show "Suc (length xs) \<le> k"
      proof (rule ccontr)
        assume "\<not> Suc (length xs) \<le> k"
        then have "k \<le> length xs" by simp
        with a have "P ((xs @ [x]) ! length xs)" by blast
        with False show False by simp
      qed
    qed auto
    then show ?thesis using False by simp
  qed
qed

lemma getValue_beyond_last:
  assumes "getLastRow s < r"
  shows "getValue r c s = []"
proof (cases "r - 2 < length s")
  case True
  have "length (dropWhile is_blank (rev s)) \<le> r - 2"
    using assms by (simp add: getLastRow_def HEADER_ROW_def)
  then have "is_blank (s ! (r - 2))"
    using True by (simp add: blank_tail)
  then show ?thesis
    by (auto simp: getValue_def config_defs is_blank_def numeral_2_eq_2)
next
  case False
  then show ?thesis by (auto simp: getValue_def config_defs numeral_2_eq_2)
qed

subsection \<open>The sheet's label map\<close>

lemma map_of_obj_set: "map_of (obj_set m k v) = (map_of m)(k \<mapsto> v)"
  by (induction m k v rule: obj_set.induct) (auto simp: fun_eq_iff)

lemma set_for_in [simp]: "set (for_in obj) = set obj"
  by (auto simp: for_in_def)

lemma map_of_obj_assign:
  "map_of (obj_assign m k v) = (if k = proto_key then map_of m else (map_of m)(k \<mapsto> v))"
  by (simp add: obj_assign_def map_of_obj_set)

lemma obj_has_iff: "obj_has m k \<longleftrightarrow> map_of m k \<noteq> None \<or> proto_member k"
  by (simp add: obj_has_def split: option.splits)


lemma scan_rows_dom:
  "map_of (scan_rows s rows m) p \<noteq> None \<longleftrightarrow>
     map_of m p \<noteq> None \<or>
     (p \<noteq> [] \<and> p \<noteq> proto_key \<and> (\<exists>r\<in>set rows. getValue r NAME_COLUMN s = p))"
  unfolding scan_rows_def
  by (induction rows arbitrary: m) (auto simp: Let_def map_of_obj_assign)

lemma obj_set_entries: "(p, r) \<in> set (obj_set m k v) \<Longrightarrow> (p, r) \<in> set m \<or> (p = k \<and> r = v)"
  by (induction m k v rule: obj_set.induct) (auto split: if_splits)

lemma obj_assign_entries: "(p, r) \<in> set (obj_assign m k v) \<Longrightarrow> (p, r) \<in> set m \<or> (p = k \<and> r = v)"
  using obj_set_entries[of p r m k v] by (auto simp: obj_assign_def split: if_splits)

lemma scan_rows_Cons:
  "scan_rows s (a # rows) m =
     scan_rows s rows (if getValue a NAME_COLUMN s \<noteq> [] then obj_assign m (getValue a NAME_COLUMN s) a else m)"
  by (simp add: scan_rows_def Let_def)

lemma scan_rows_entries:
  "(p, r) \<in> set (scan_rows s rows m) \<Longrightarrow>
     (p, r) \<in> set m \<or> (r \<in> set rows \<and> getValue r NAME_COLUMN s = p \<and> p \<noteq> [])"
proof (induction rows arbitrary: m)
  case Nil
  then show ?case by (simp add: scan_rows_def)
next
  case (Cons a rows)
  from Cons.IH[OF Cons.prems[unfolded scan_rows_Cons]]
  show ?case
  proof
    assume "(p, r) \<in> set (if getValue a NAME_COLUMN s \<noteq> [] then obj_assign m (getValue a NAME_COLUMN s) a else m)"
    then show ?thesis
      using obj_assign_entries[of p r m "getValue a NAME_COLUMN s" a]
      by (cases "getValue a NAME_COLUMN s = []") auto
  next
    assume "r \<in> set rows \<and> getValue r NAME_COLUMN s = p \<and> p \<noteq> []"
    then show ?thesis by simp
  qed
qed

lemma sheet_label_map_scan_rows:
  "sheet_label_map s lastRow = scan_rows s [HEADER_ROW + 1 ..< Suc lastRow] []"
  by (rule sheet_label_map_def)

lemma sheet_label_map_keys:
  "map_of (sheet_label_map s lastRow) p \<noteq> None \<longleftrightarrow>
     p \<noteq> [] \<and> p \<noteq> proto_key \<and>
     (\<exists>r. HEADER_ROW < r \<and> r \<le> lastRow \<and> getValue r NAME_COLUMN s = p)"
proof -
  have "(\<exists>r\<in>set [HEADER_ROW + 1 ..< Suc lastRow]. getValue r NAME_COLUMN s = p) \<longleftrightarrow>
        (\<exists>r. HEADER_ROW < r \<and> r \<le> lastRow \<and> getValue r NAME_COLUMN s = p)"
    unfolding set_upt by (auto simp: Suc_le_eq less_Suc_eq_le)
  then show ?thesis
    unfolding sheet_label_map_scan_rows scan_rows_dom by simp
qed

lemma sheet_label_map_entries:
  assumes "(p, r) \<in> set (sheet_label_map s lastRow)"
  shows "HEADER_ROW < r \<and> r \<le> lastRow \<and> getValue r NAME_COLUMN s = p \<and> p \<noteq> []"
proof -
  have "r \<in> set [HEADER_ROW + 1 ..< Suc lastRow] \<and> getValue r NAME_COLUMN s = p \<and> p \<noteq> []"
    using scan_rows_entries[OF assms[unfolded sheet_label_map_scan_rows]] by simp
  then show ?thesis unfolding set_upt by (auto simp: Suc_le_eq less_Suc_eq_le)
qed

lemma sheet_label_map_local_names:
  "map_of (sheet_label_map s (getLastRow s)) p \<noteq> None \<longleftrightarrow> p \<in> local_names s \<and> p \<noteq> proto_key"
proof -
  have "(\<exists>r. HEADER_ROW < r \<and> r \<le> getLastRow s \<and> getValue r NAME_COLUMN s = p) \<longleftrightarrow>
        (\<exists>r. getValue r NAME_COLUMN s = p)" if "p \<noteq> []"
  proof
    assume "\<exists>r. getValue r NAME_COLUMN s = p"
    then obtain r where r: "getValue r NAME_COLUMN s = p" by blast
    have "r \<le> getLastRow s"
      using getValue_beyond_last[of s r NAME_COLUMN] r that by (cases "r \<le> getLastRow s") auto
    moreover have "HEADER_ROW < r"
      using r that by (auto simp: getValue_def split: if_splits)
    ultimately show "\<exists>r. HEADER_ROW < r \<and> r \<le> getLastRow s \<and> getValue r NAME_COLUMN s = p"
      using r by blast
  qed blast
  then show ?thesis
    unfolding sheet_label_map_keys local_names_iff by blast
qed

lemma sheet_label_map_has:
  "obj_has (sheet_label_map s (getLastRow s)) p \<longleftrightarrow> p \<in> local_names s \<or> proto_member p"
  unfolding obj_has_iff sheet_label_map_local_names by auto




lemma getLastRow_ge: "HEADER_ROW \<le> getLastRow s"
  by (simp add: getLastRow_def)

lemma parent_paths_no_sep: "CHR ''/'' \<notin> set n \<Longrightarrow> parent_paths n = []"
  by (simp add: parent_paths_def split_on_no_sep)







lemma getUserLabelByName_SomeD:
  "GmailApp_getUserLabelByName n g = Some l \<Longrightarrow> rl_name l = n \<and> rl_type l = User \<and> l \<in> set (labels g)"
  by (auto simp: GmailApp_getUserLabelByName_def find_Some_iff)


subsection \<open>What a create does\<close>

lemma createLabel_absent:
  assumes "lookup_id name (gmail w) = None"
  shows "gmail (createLabel row name w) = after_new_label name w"
    and "sheet (createLabel row name w) =
      (case lookup_id name (after_new_label name w) of
         Some nid \<Rightarrow> setValue row LABEL_ID_COLUMN nid (sheet (addParentLabelsToSheet name w))
       | None \<Rightarrow> sheet (addParentLabelsToSheet name w))"
proof -
  have sh: "sheet (addParentLabelsToSheet name (snd (getLabelId name (logDebug m w)))) =
        sheet (addParentLabelsToSheet name w)" for m
    by (rule addParentLabelsToSheet_sheet_cong) simp_all
  show "gmail (createLabel row name w) = after_new_label name w"
    using assms
    by (simp add: createLabel_def Let_def case_prod_beta after_new_label_def
        addParentLabelsToSheet_gmail split: option.splits)
  show "sheet (createLabel row name w) =
      (case lookup_id name (after_new_label name w) of
         Some nid \<Rightarrow> setValue row LABEL_ID_COLUMN nid (sheet (addParentLabelsToSheet name w))
       | None \<Rightarrow> sheet (addParentLabelsToSheet name w))"
    using assms sh
    by (simp add: createLabel_def Let_def case_prod_beta after_new_label_def
        addParentLabelsToSheet_gmail split: option.splits)
qed

lemma ancestor_paths_AB: "ancestor_paths ''A/B'' = [''A'']"
  by (simp add: ancestor_paths_def upt_rec)


lemma after_new_label_names: "remote_names (after_new_label n w) = insert n (remote_names (gmail w) \<union> set (created_parents (parent_paths n) (gmail w)))"
  by (simp add: after_new_label_def addParentLabelsToSheet_gmail)


lemma after_new_label_cong: "gmail w = gmail w' \<Longrightarrow> after_new_label n w = after_new_label n w'"
  by (simp add: after_new_label_def addParentLabelsToSheet_gmail)



lemma updateLabel_not_found:
  assumes "lookup_id old (gmail w) = None"
  shows "gmail (updateLabel row old name w) = gmail (createLabel row name w)"
    and "sheet (updateLabel row old name w) = sheet (createLabel row name w)"
proof -
  define w' where "w' = logDebug (''Old label '' @ quoted old @ '' not found, creating new label '' @
      quoted name @ '' instead'')
      (snd (getLabelId old (logDebug (''Updating label: '' @ quoted old @ '' -> '' @ quoted name) w)))"
  have u: "updateLabel row old name w = createLabel row name w'"
    using assms by (simp add: updateLabel_def Let_def case_prod_beta w'_def)
  have g: "gmail w' = gmail w" and s: "sheet w' = sheet w" by (simp_all add: w'_def)
  have cg: "gmail (createLabel row name a) = gmail (createLabel row name b)"
    and cs: "sheet (createLabel row name a) = sheet (createLabel row name b)"
    if "gmail a = gmail b" "sheet a = sheet b" for a b
  proof -
    have sh: "sheet (addParentLabelsToSheet name (snd (getLabelId name (logDebug m a)))) =
        sheet (addParentLabelsToSheet name (snd (getLabelId name (logDebug m b))))" for m
      by (rule addParentLabelsToSheet_sheet_cong) (simp_all add: that)
    show "gmail (createLabel row name a) = gmail (createLabel row name b)"
      using that by (simp add: createLabel_def Let_def case_prod_beta addParentLabelsToSheet_gmail
          split: option.splits)
    show "sheet (createLabel row name a) = sheet (createLabel row name b)"
      using that sh by (simp add: createLabel_def Let_def case_prod_beta addParentLabelsToSheet_gmail
          split: option.splits)
  qed
  show "gmail (updateLabel row old name w) = gmail (createLabel row name w)"
    unfolding u by (rule cg[OF g s])
  show "sheet (updateLabel row old name w) = sheet (createLabel row name w)"
    unfolding u by (rule cs[OF g s])
qed

subsection \<open>Step 2 of the sync\<close>

lemma sync_parents_gmail:
  "gmail (sync_parents m parts acc w) =
     fold GmailApp_createLabel (filter (\<lambda>p. truthy_get m p = None) (paths_from acc parts)) (gmail w)"
  by (induction parts arbitrary: acc w) (simp_all add: Let_def)

lemma sync_parents_sheet [simp]: "sheet (sync_parents m parts acc w) = sheet w"
  by (induction parts arbitrary: acc w) (simp_all add: Let_def)

lemma sync_label_gmail:
  "gmail (sync_label m e w) = fold GmailApp_createLabel (sync_creates m (fst e)) (gmail w)"
  by (simp add: sync_label_def sync_creates_def Let_def case_prod_beta sync_parents_gmail
      parent_paths_def parent_paths_no_sep[unfolded parent_paths_def] split: option.splits)

lemma sync_label_sheet:
  "getValue r c (sheet (sync_label m e w)) = getValue r c (sheet w) \<or>
   (r = snd e \<and> c = LABEL_ID_COLUMN \<and> getValue r c (sheet (sync_label m e w)) \<noteq> [])"
  by (auto simp: sync_label_def Let_def case_prod_beta getValue_setValue
      dest: truthy_get_SomeD lookup_id_SomeD split: option.splits)

lemma fold_sync_label_gmail:
  "gmail (fold (sync_label m) es w) =
     fold GmailApp_createLabel (concat (map (\<lambda>e. sync_creates m (fst e)) es)) (gmail w)"
  by (induction es arbitrary: w) (simp_all add: sync_label_gmail)

lemma fold_sync_label_sheet:
  "getValue r c (sheet (fold (sync_label m) es w)) = getValue r c (sheet w) \<or>
   (r \<in> snd ` set es \<and> c = LABEL_ID_COLUMN \<and> getValue r c (sheet (fold (sync_label m) es w)) \<noteq> [])"
proof (induction es arbitrary: w)
  case Nil
  then show ?case by simp
next
  case (Cons e es)
  show ?case
    using Cons.IH[of "sync_label m e w"] sync_label_sheet[of r c m e w]
    by (cases "r \<in> snd ` set es") auto
qed

lemma fold_sync_label_names [simp]:
  "getValue r NAME_COLUMN (sheet (fold (sync_label m) es w)) = getValue r NAME_COLUMN (sheet w)"
  using fold_sync_label_sheet[of r NAME_COLUMN m es w] by (auto simp: config_defs)

subsection \<open>Step 3 of the sync\<close>

lemma add_missing_rows_gmail [simp]: "gmail (add_missing_rows slm ls lastRow w) = gmail w"
  by (induction ls arbitrary: lastRow w) (simp_all add: Let_def)

lemma add_missing_rows_keeps:
  "r \<le> lastRow \<Longrightarrow> getValue r c (sheet (add_missing_rows slm ls lastRow w)) = getValue r c (sheet w)"
  by (induction ls arbitrary: lastRow w) (simp_all add: Let_def getValue_setValue)

lemma add_missing_rows_none:
  "\<forall>l\<in>set ls. is_system_label l \<or> obj_has slm (rl_name l) \<Longrightarrow>
   add_missing_rows slm ls lastRow w = w"
  by (induction ls arbitrary: lastRow w) auto

lemma local_names_append_row:
  assumes "getValue r NAME_COLUMN s = []" "HEADER_ROW < r"
  shows "local_names (setValue r NAME_COLUMN n (setValue r LABEL_ID_COLUMN i s)) =
         local_names s \<union> ({n} - {[]})"
proof -
  have "x \<in> local_names (setValue r NAME_COLUMN n (setValue r LABEL_ID_COLUMN i s)) \<longleftrightarrow>
        x \<in> local_names s \<union> ({n} - {[]})" for x
  proof
    assume "x \<in> local_names (setValue r NAME_COLUMN n (setValue r LABEL_ID_COLUMN i s))"
    then obtain r' where x: "x \<noteq> []"
      "getValue r' NAME_COLUMN (setValue r NAME_COLUMN n (setValue r LABEL_ID_COLUMN i s)) = x"
      unfolding local_names_iff by blast
    show "x \<in> local_names s \<union> ({n} - {[]})"
    proof (cases "r' = r")
      case True
      then show ?thesis using x assms(2) by (simp add: getValue_setValue config_defs)
    next
      case False
      then have "getValue r' NAME_COLUMN s = x" using x(2) by (simp add: getValue_setValue config_defs)
      then have "x \<in> local_names s" using x(1) unfolding local_names_iff by blast
      then show ?thesis by simp
    qed
  next
    assume "x \<in> local_names s \<union> ({n} - {[]})"
    then consider "x \<in> local_names s" | "x = n" "n \<noteq> []" by auto
    then show "x \<in> local_names (setValue r NAME_COLUMN n (setValue r LABEL_ID_COLUMN i s))"
    proof cases
      case 1
      then obtain r' where x: "x \<noteq> []" "getValue r' NAME_COLUMN s = x"
        unfolding local_names_iff by blast
      then have "r' \<noteq> r" using assms(1) by auto
      then have "getValue r' NAME_COLUMN (setValue r NAME_COLUMN n (setValue r LABEL_ID_COLUMN i s)) = x"
        using x(2) by (simp add: getValue_setValue config_defs)
      then show ?thesis using x(1) unfolding local_names_iff by blast
    next
      case 2
      have "getValue r NAME_COLUMN (setValue r NAME_COLUMN n (setValue r LABEL_ID_COLUMN i s)) = x"
        using 2 assms(2) by (simp add: getValue_setValue)
      then show ?thesis using 2 unfolding local_names_iff by blast
    qed
  qed
  then show ?thesis by blast
qed

lemma add_missing_rows_names:
  assumes "\<forall>r. lastRow < r \<longrightarrow> getValue r NAME_COLUMN (sheet w) = []" "HEADER_ROW \<le> lastRow"
  shows "local_names (sheet (add_missing_rows slm ls lastRow w)) =
         local_names (sheet w) \<union>
         ({rl_name l | l. l \<in> set ls \<and> \<not> is_system_label l \<and> \<not> obj_has slm (rl_name l)} - {[]})"
  using assms
proof (induction ls arbitrary: lastRow w)
  case Nil
  then show ?case by simp
next
  case (Cons l ls)
  show ?case
  proof (cases "is_system_label l \<or> obj_has slm (rl_name l)")
    case True
    then show ?thesis using Cons.IH[OF Cons.prems] by auto
  next
    case False
    define s' where "s' = setValue (Suc lastRow) NAME_COLUMN (rl_name l)
        (setValue (Suc lastRow) LABEL_ID_COLUMN (rl_id l) (sheet w))"
    define w' where "w' = logDebug (''Added Gmail label '' @ quoted (rl_name l) @ '' to spreadsheet'')
        (on_sheet (setValue (Suc lastRow) NAME_COLUMN (rl_name l))
          (on_sheet (setValue (Suc lastRow) LABEL_ID_COLUMN (rl_id l)) w))"
    have sw: "sheet w' = s'" by (simp add: w'_def s'_def)
    have step: "add_missing_rows slm (l # ls) lastRow w = add_missing_rows slm ls (Suc lastRow) w'"
      using False by (simp add: Let_def w'_def)
    have inv: "\<forall>r. Suc lastRow < r \<longrightarrow> getValue r NAME_COLUMN (sheet w') = []"
      using Cons.prems(1) by (simp add: sw s'_def getValue_setValue)
    have hr: "HEADER_ROW \<le> Suc lastRow" using Cons.prems(2) by simp
    have ln: "local_names s' = local_names (sheet w) \<union> ({rl_name l} - {[]})"
      unfolding s'_def using Cons.prems by (intro local_names_append_row) auto
    show ?thesis
      unfolding step Cons.IH[OF inv hr] sw ln using False by auto
  qed
qed

subsection \<open>The sync as a whole\<close>

lemma syncAllLabels_unfold:
  "syncAllLabels w =
     (case Gmail_Users_Labels_list (gmail (after_step2 w)) of
        Inl msg \<Rightarrow> (Raised msg, after_step2 w)
      | Inr response \<Rightarrow>
          (Returned None,
           toast ''All labels synced bidirectionally between Gmail and spreadsheet'' []
             (case response of
                Some ls \<Rightarrow>
                  add_missing_rows (sheet_label_map (sheet w) (getLastRow (sheet w))) ls
                    (getLastRow (sheet w)) (after_step2 w)
              | None \<Rightarrow> after_step2 w)))"
  unfolding syncAllLabels_def after_step2_def Let_def case_prod_beta getLabelMap_proj
  by (rule refl)

lemma after_step2_gmail:
  "gmail (after_step2 w) =
     fold GmailApp_createLabel
       (concat (map (\<lambda>e. sync_creates (fst (getLabelMap w)) (fst e))
          (for_in (sheet_label_map (sheet w) (getLastRow (sheet w)))))) (gmail w)"
  by (simp add: after_step2_def fold_sync_label_gmail)

lemma after_step2_listing [simp]: "listing (gmail (after_step2 w)) = listing (gmail w)"
  by (simp add: after_step2_gmail)

lemma after_step2_names [simp]:
  "getValue r NAME_COLUMN (sheet (after_step2 w)) = getValue r NAME_COLUMN (sheet w)"
  by (simp add: after_step2_def)

lemma after_step2_local_names [simp]: "local_names (sheet (after_step2 w)) = local_names (sheet w)"
  by (auto simp: local_names_iff)

lemma after_step2_below:
  assumes "getLastRow (sheet w) < r"
  shows "getValue r c (sheet (after_step2 w)) = []"
proof -
  have "r \<notin> snd ` set (for_in (sheet_label_map (sheet w) (getLastRow (sheet w))))"
    using assms sheet_label_map_entries[of _ r "sheet w" "getLastRow (sheet w)"] by force
  then have "getValue r c (sheet (after_step2 w)) = getValue r c (sheet w)"
    using fold_sync_label_sheet[of r c "fst (getLabelMap w)"
        "for_in (sheet_label_map (sheet w) (getLastRow (sheet w)))" "snd (getLabelMap w)"]
    by (auto simp: after_step2_def)
  then show ?thesis using assms by (simp add: getValue_beyond_last)
qed

lemma getLabelMap_ListOk: "listing (gmail w) = ListOk \<Longrightarrow> fst (getLabelMap w) = label_map_of (labels (gmail w))"
  by (simp add: getLabelMap_def Gmail_Users_Labels_list_def)

lemma sheet_label_map_fst:
  "fst ` set (sheet_label_map s (getLastRow s)) = local_names s - {proto_key}"
proof -
  have "p \<in> fst ` set (sheet_label_map s (getLastRow s)) \<longleftrightarrow> p \<in> local_names s - {proto_key}" for p
    using sheet_label_map_local_names[of s p] by (simp add: map_of_eq_None_iff)
  then show ?thesis by blast
qed

lemma sync_creates_set:
  assumes "listing g = ListOk" "wf_gmail g"
  shows "set (sync_creates (label_map_of (labels g)) n) =
     (if n \<in> remote_names g \<or> proto_member n then {}
      else insert n {p \<in> set (parent_paths n). p \<notin> remote_names g \<and> \<not> proto_member p})"
proof -
  have t: "truthy_get (label_map_of (labels g)) x = None \<longleftrightarrow> x \<notin> remote_names g \<and> \<not> proto_member x" for x
    using lookup_id_None_iff[OF assms, of x] by (simp add: lookup_id_ListOk[OF assms(1)])
  show ?thesis by (auto simp: sync_creates_def t)
qed

lemma after_step2_remote_names:
  assumes "listing (gmail w) = ListOk" "wf_gmail (gmail w)"
  shows "remote_names (gmail (after_step2 w)) =
     remote_names (gmail w) \<union> {n \<in> local_names (sheet w). \<not> proto_member n} \<union>
     (\<Union>n\<in>{n \<in> local_names (sheet w). n \<notin> remote_names (gmail w) \<and> \<not> proto_member n}.
        {p \<in> set (parent_paths n). \<not> proto_member p})"
proof -
  define slm where "slm = sheet_label_map (sheet w) (getLastRow (sheet w))"
  have keys: "fst ` set slm = local_names (sheet w) - {proto_key}"
    by (simp add: slm_def sheet_label_map_fst)
  have "remote_names (gmail (after_step2 w)) =
      remote_names (gmail w) \<union> (\<Union>e\<in>set slm. set (sync_creates (label_map_of (labels (gmail w))) (fst e)))"
    by (simp add: after_step2_gmail getLabelMap_ListOk[OF assms(1)] slm_def)
  also have "\<dots> = remote_names (gmail w) \<union>
      (\<Union>n\<in>local_names (sheet w) - {proto_key}. set (sync_creates (label_map_of (labels (gmail w))) n))"
    unfolding keys[symmetric] by auto
  also have "\<dots> = remote_names (gmail w) \<union> {n \<in> local_names (sheet w). \<not> proto_member n} \<union>
     (\<Union>n\<in>{n \<in> local_names (sheet w). n \<notin> remote_names (gmail w) \<and> \<not> proto_member n}.
        {p \<in> set (parent_paths n). \<not> proto_member p})"
    unfolding sync_creates_set[OF assms] by (auto split: if_splits)
  finally show ?thesis .
qed

lemma syncAllLabels_gmail: "gmail (snd (syncAllLabels w)) = gmail (after_step2 w)"
  by (simp add: syncAllLabels_unfold split: sum.splits option.splits)

lemma syncAllLabels_sheet_ListOk:
  assumes "listing (gmail w) = ListOk"
  shows "sheet (snd (syncAllLabels w)) =
     sheet (add_missing_rows (sheet_label_map (sheet w) (getLastRow (sheet w)))
        (labels (gmail (after_step2 w))) (getLastRow (sheet w)) (after_step2 w))"
  using assms by (simp add: syncAllLabels_unfold Gmail_Users_Labels_list_def)

lemma syncAllLabels_sheet_keeps:
  "r \<le> getLastRow (sheet w) \<Longrightarrow>
   getValue r NAME_COLUMN (sheet (snd (syncAllLabels w))) = getValue r NAME_COLUMN (sheet w)"
  by (simp add: syncAllLabels_unfold add_missing_rows_keeps split: sum.splits option.splits)

lemma syncAllLabels_fst:
  "fst (syncAllLabels w) = (case listing (gmail w) of ListThrows msg \<Rightarrow> Raised msg | _ \<Rightarrow> Returned None)"
  by (simp add: syncAllLabels_unfold Gmail_Users_Labels_list_def split: listing.splits)

lemma syncAllLabels_local_names:
  assumes "listing (gmail w) = ListOk"
  shows "local_names (sheet (snd (syncAllLabels w))) =
     local_names (sheet w) \<union>
     ({rl_name l | l. l \<in> set (labels (gmail (snd (syncAllLabels w)))) \<and> \<not> is_system_label l \<and>
         \<not> proto_member (rl_name l)} - {[]})"
proof -
  define slm where "slm = sheet_label_map (sheet w) (getLastRow (sheet w))"
  have inv: "\<forall>r. getLastRow (sheet w) < r \<longrightarrow> getValue r NAME_COLUMN (sheet (after_step2 w)) = []"
    by (simp add: getValue_beyond_last)
  have key: "obj_has slm n \<longleftrightarrow> n \<in> local_names (sheet w) \<or> proto_member n" for n
    by (simp add: slm_def sheet_label_map_has)
  have "local_names (sheet (snd (syncAllLabels w))) =
      local_names (sheet w) \<union>
      ({rl_name l | l. l \<in> set (labels (gmail (after_step2 w))) \<and> \<not> is_system_label l \<and>
          \<not> obj_has slm (rl_name l)} - {[]})"
    unfolding syncAllLabels_sheet_ListOk[OF assms] slm_def
    using add_missing_rows_names[OF inv getLastRow_ge] by simp
  also have "\<dots> = local_names (sheet w) \<union>
     ({rl_name l | l. l \<in> set (labels (gmail (after_step2 w))) \<and> \<not> is_system_label l \<and>
         \<not> proto_member (rl_name l)} - {[]})"
    unfolding key by auto
  finally show ?thesis by (simp add: syncAllLabels_gmail)
qed

lemma sync_creates_subset: "set (sync_creates m n) \<subseteq> insert n (set (parent_paths n))"
  by (auto simp: sync_creates_def)

lemma local_name_paths:
  assumes "n \<in> local_names s" "hd n \<noteq> CHR ''/''"
  shows "parent_paths n = ancestor_paths n" "[] \<notin> set (ancestor_paths n)"
proof -
  have ne: "n \<noteq> []" using assms(1) by (simp add: local_names_def)
  show "parent_paths n = ancestor_paths n" by (rule parent_paths_eq_ancestor_paths[OF ne assms(2)])
  show "[] \<notin> set (ancestor_paths n)" using ancestor_paths_wellformed[OF ne assms(2)] by simp
qed

lemma syncAllLabels_local_subset:
  "local_names (sheet w) \<subseteq> local_names (sheet (snd (syncAllLabels w)))"
proof
  fix n assume "n \<in> local_names (sheet w)"
  then obtain r where r: "n \<noteq> []" "getValue r NAME_COLUMN (sheet w) = n"
    unfolding local_names_iff by blast
  have "r \<le> getLastRow (sheet w)"
    using r getValue_beyond_last[of "sheet w" r NAME_COLUMN] by (cases "r \<le> getLastRow (sheet w)") auto
  then have "getValue r NAME_COLUMN (sheet (snd (syncAllLabels w))) = n"
    using r(2) by (simp add: syncAllLabels_sheet_keeps)
  with r(1) show "n \<in> local_names (sheet (snd (syncAllLabels w)))"
    unfolding local_names_iff by blast
qed

lemma after_step2_created_names:
  assumes "l \<in> set (labels (gmail (after_step2 w)))"
  shows "l \<in> set (labels (gmail w)) \<or>
         (rl_type l = User \<and>
          (\<exists>n\<in>local_names (sheet w). rl_name l = n \<or> rl_name l \<in> set (parent_paths n)))"
proof -
  define ps where "ps = concat (map (\<lambda>e. sync_creates (fst (getLabelMap w)) (fst e))
          (for_in (sheet_label_map (sheet w) (getLastRow (sheet w)))))"
  obtain new where new: "labels (gmail (after_step2 w)) = labels (gmail w) @ new"
    "list_all (\<lambda>l. rl_type l = User \<and> rl_name l \<in> set ps - remote_names (gmail w)) new"
    unfolding after_step2_gmail ps_def using fold_create_labels by blast
  show ?thesis
  proof (cases "l \<in> set (labels (gmail w))")
    case True
    then show ?thesis by simp
  next
    case False
    then have ln: "l \<in> set new" using assms new(1) by simp
    then have u: "rl_type l = User" and inps: "rl_name l \<in> set ps"
      using new(2) by (auto simp: list_all_iff)
    then obtain e where e: "e \<in> set (sheet_label_map (sheet w) (getLastRow (sheet w)))"
      "rl_name l \<in> set (sync_creates (fst (getLabelMap w)) (fst e))"
      by (auto simp: ps_def)
    have "fst e \<in> local_names (sheet w)"
      using e(1) sheet_label_map_fst[of "sheet w"] by force
    moreover have "rl_name l = fst e \<or> rl_name l \<in> set (parent_paths (fst e))"
      using e(2) sync_creates_subset by fastforce
    ultimately show ?thesis using u by blast
  qed
qed

lemma sync_creates_nil:
  assumes "listing g = ListOk" "wf_gmail g" "n \<in> remote_names g \<or> proto_member n"
  shows "sync_creates (label_map_of (labels g)) n = []"
  using sync_creates_set[OF assms(1,2), of n] assms(3) by simp

lemma after_step2_no_creation:
  assumes "listing (gmail w) = ListOk" "wf_gmail (gmail w)"
    and "\<And>n. n \<in> local_names (sheet w) \<Longrightarrow> n \<in> remote_names (gmail w) \<or> proto_member n"
  shows "gmail (after_step2 w) = gmail w"
proof -
  have "sync_creates (fst (getLabelMap w)) (fst e) = []"
    if "e \<in> set (sheet_label_map (sheet w) (getLastRow (sheet w)))" for e
  proof -
    have "fst e \<in> local_names (sheet w)"
      using that sheet_label_map_fst[of "sheet w"] by force
    then show ?thesis
      using assms by (auto simp: getLabelMap_ListOk intro!: sync_creates_nil)
  qed
  then have "concat (map (\<lambda>e. sync_creates (fst (getLabelMap w)) (fst e))
          (for_in (sheet_label_map (sheet w) (getLastRow (sheet w))))) = []"
    by simp
  then show ?thesis unfolding after_step2_gmail by (simp only: fold.simps id_apply)
qed

subsection \<open>Only user labels are touched\<close>

lemma user_only_refl [simp]: "user_only g g"
  by (simp add: user_only_def)

lemma user_only_trans: "user_only g g' \<Longrightarrow> user_only g' g'' \<Longrightarrow> user_only g g''"
  by (auto simp: user_only_def)

lemma user_only_fold_create: "user_only g (fold GmailApp_createLabel ps g)"
proof -
  obtain new where "labels (fold GmailApp_createLabel ps g) = labels g @ new"
    using fold_create_labels by blast
  then show ?thesis
    by (auto simp: user_only_def list_all_iff)
qed

lemma user_only_after_new_label: "user_only (gmail w) (after_new_label n w)"
  unfolding after_new_label_eq by (rule user_only_fold_create)

lemma user_only_batches:
  assumes "rl_type l = User"
  shows "user_only g (add_batches l ths i g)" "user_only g (remove_batches l ths i g)"
  using assms by (auto simp: user_only_def add_batches_effect remove_batches_effect list_all_iff)

lemma user_only_delete:
  assumes "rl_type l = User"
  shows "user_only g (label_deleteLabel l g)"
proof -
  have "k \<in> set (remove1 l (labels g))" if "k \<in> set (labels g)" "rl_type k = System" for k
  proof -
    have "k \<noteq> l" using that(2) assms by auto
    then show ?thesis using that(1) by simp
  qed
  then show ?thesis
    using assms by (simp add: user_only_def label_deleteLabel_def)
qed

lemma createLabel_adopts:
  "lookup_id name (gmail w) = Some i \<Longrightarrow> gmail (createLabel row name w) = gmail w"
  by (simp add: createLabel_def Let_def case_prod_beta)

lemma user_only_createLabel: "user_only (gmail w) (gmail (createLabel row name w))"
proof (cases "lookup_id name (gmail w)")
  case None
  then show ?thesis by (simp add: createLabel_absent(1) user_only_after_new_label)
next
  case (Some i)
  then show ?thesis by (simp add: createLabel_adopts)
qed

lemma user_only_deleteLabel: "user_only (gmail w) (gmail (deleteLabel row name w))"
  by (auto simp: deleteLabel_def Let_def case_prod_beta clearContent_def
      split: option.splits dest!: getUserLabelByName_SomeD intro!: user_only_delete)

lemma user_only_updateLabel: "user_only (gmail w) (gmail (updateLabel row old new w))"
proof (cases "lookup_id old (gmail w)")
  case None
  then show ?thesis by (simp add: updateLabel_not_found(1) user_only_createLabel)
next
  case (Some oid)
  have full: "user_only (gmail w)
      (label_deleteLabel oldLabel (remove_batches oldLabel ths 0 (add_batches newLabel ths 0 (after_new_label new w))))"
    if "rl_type oldLabel = User" "rl_type newLabel = User" for oldLabel newLabel ths
    using that
    by (blast intro: user_only_trans user_only_after_new_label user_only_batches user_only_delete)
  show ?thesis
    using full user_only_after_new_label[of w new]
    by (auto simp: updateLabel_found[OF Some] split: option.splits dest!: getUserLabelByName_SomeD)
qed

lemma user_only_handleLabelChange: "user_only (gmail w) (gmail (handleLabelChange row old new w))"
  using user_only_createLabel[of "logDebug m w" for m] user_only_deleteLabel[of "logDebug m w" for m]
    user_only_updateLabel[of "logDebug m w" for m]
  by (simp add: handleLabelChange_def Let_def)

lemma user_only_syncAllLabels: "user_only (gmail w) (gmail (snd (syncAllLabels w)))"
  unfolding syncAllLabels_gmail after_step2_gmail by (rule user_only_fold_create)

lemma syncAllLabels_appends_no_system:
  "local_names (sheet (snd (syncAllLabels w))) \<subseteq>
     local_names (sheet w) \<union>
     {rl_name l | l. l \<in> set (labels (gmail (snd (syncAllLabels w)))) \<and> \<not> is_system_label l}"
proof (cases "listing (gmail w) = ListOk")
  case True
  then show ?thesis unfolding syncAllLabels_local_names[OF True] by blast
next
  case False
  then have "sheet (snd (syncAllLabels w)) = sheet (after_step2 w)"
    by (cases "listing (gmail w)") (simp_all add: syncAllLabels_unfold Gmail_Users_Labels_list_def)
  then show ?thesis by simp
qed

lemma getLabelMap_dom:
  "listing (gmail w) = ListOk \<Longrightarrow> dom (fst (getLabelMap w)) = remote_names (gmail w) - {proto_key}"
  by (simp add: getLabelMap_ListOk label_map_of_dom remote_names_def)

lemma getLabelMap_unavailable:
  assumes "listing (gmail w) \<noteq> ListOk"
  shows "fst (getLabelMap w) = Map.empty"
    and "\<exists>msg. logs (snd (getLabelMap w)) = logs w @ [Error msg]"
    and "fst (getLabelId name w) = (if proto_member name then Some (member_text name) else None)"
  using assms
  by (cases "listing (gmail w)"; simp add: getLabelMap_def Gmail_Users_Labels_list_def
        lookup_id_unavailable)+

lemma getLabelId_finds_listed:
  assumes "listing (gmail w) = ListOk" "wf_gmail (gmail w)" "l \<in> set (labels (gmail w))"
  shows "fst (getLabelId (rl_name l) w) \<noteq> None"
  using lookup_id_found[OF assms] by simp

lemma toasts_simps [simp]:
  "toasts (logDebug m w) = toasts w" "toasts (logError m w) = toasts w"
  "toasts (toast m t w) = toasts w @ [Toast m t]"
  "toasts (on_sheet f w) = toasts w" "toasts (on_gmail h w) = toasts w"
  by (simp_all add: toasts_def logDebug_def)

lemma toasts_getLabelMap [simp]: "toasts (snd (getLabelMap w)) = toasts w"
  by (simp add: getLabelMap_def split: sum.splits option.splits)

lemma toasts_getLabelId [simp]: "toasts (snd (getLabelId n w)) = toasts w"
  by (simp add: getLabelId_def case_prod_beta)

lemma deleteLabel_not_found:
  assumes "lookup_id n (gmail w) = None \<or> GmailApp_getUserLabelByName n (gmail w) = None"
  shows "sheet (deleteLabel row n w) = clearContent row LABEL_ID_COLUMN (sheet w)"
    and "gmail (deleteLabel row n w) = gmail w"
    and "toasts (deleteLabel row n w) = toasts w"
  using assms
  by (auto simp: deleteLabel_def Let_def case_prod_beta split: option.splits)

lemma getUserLabelByName_system:
  assumes "wf_gmail g" "l \<in> set (labels g)" "rl_type l = System"
  shows "GmailApp_getUserLabelByName (rl_name l) g = None"
proof (cases "GmailApp_getUserLabelByName (rl_name l) g")
  case None
  then show ?thesis .
next
  case (Some k)
  then have k: "rl_name k = rl_name l" "rl_type k = User" "k \<in> set (labels g)"
    by (auto dest: getUserLabelByName_SomeD)
  then have "k = l" using wf_same_name[OF assms(1) k(3) assms(2)] by simp
  with k(2) assms(3) show ?thesis by simp
qed

lemma handleLabelChange_delete_in_use:
  assumes "1 \<le> length (GmailApp_search_label name (gmail w))"
  shows "gmail (handleLabelChange row name [] w) = gmail w"
proof -
  have "0 < length (GmailApp_search_label name (gmail w))"
    using assms by (cases "GmailApp_search_label name (gmail w)") auto
  then show ?thesis
    by (simp add: handleLabelChange_def deleteLabel_def Let_def case_prod_beta clearContent_def
        split: option.splits)
qed

section \<open>Properties\<close>

subsection \<open>Row-change classification\<close>

text \<open>
  C9. The row-change processor compares the old and the new name as exact strings, with
  no trimming: when they are equal (both empty included) it only writes its debug line
  and neither store changes; when both are non-empty and differ, whatever the characters,
  it runs the rename, so an edit from \<open>A\<close> to a single blank is a rename and not a delete;
  a delete needs the new value to be exactly the empty string, a create the old one.
  The edit handler hands the values of the event on as they are, an absent value as the
  empty string.
\<close>

theorem handleLabelChange_exact_strings:
  "(oldValue = newValue \<longrightarrow>
      sheet (handleLabelChange row oldValue newValue w) = sheet w \<and>
      gmail (handleLabelChange row oldValue newValue w) = gmail w)
   \<and> (oldValue \<noteq> [] \<and> newValue \<noteq> [] \<and> oldValue \<noteq> newValue \<longrightarrow>
        handleLabelChange row oldValue newValue w =
          updateLabel row oldValue newValue
            (logDebug (''Processing label change: '' @ quoted oldValue @ '' -> '' @ quoted newValue) w))
   \<and> (oldValue \<noteq> [] \<and> newValue = [] \<longrightarrow>
        handleLabelChange row oldValue newValue w =
          deleteLabel row oldValue
            (logDebug (''Processing label change: '' @ quoted oldValue @ '' -> '' @ quoted newValue) w))
   \<and> (oldValue = [] \<and> newValue \<noteq> [] \<longrightarrow>
        handleLabelChange row oldValue newValue w =
          createLabel row newValue
            (logDebug (''Processing label change: '' @ quoted oldValue @ '' -> '' @ quoted newValue) w))
   \<and> (e_sheetName e = SHEET_NAME \<and> HEADER_ROW < e_row e \<and> e_column e = NAME_COLUMN \<longrightarrow>
        onEditTrigger e w =
          handleLabelChange (e_row e) (or_empty (e_oldValue e)) (or_empty (e_value e))
            (logDebug (''Change detected in Name column at row '' @ show_nat (e_row e)) w))
   \<and> or_empty (Some v) = v \<and> or_empty None = []"
  by (simp add: handleLabelChange_def onEditTrigger_def or_empty_def Let_def)

theorem handleLabelChange_exact_strings_witness:
  "handleLabelChange 2 ''A'' '' '' scenario1 =
     updateLabel 2 ''A'' '' ''
       (logDebug (''Processing label change: '' @ quoted ''A'' @ '' -> '' @ quoted '' '') scenario1)
   \<and> gmail (handleLabelChange 2 ''A'' ''A'' scenario1) = gmail scenario1"
  using handleLabelChange_exact_strings [of "''A''" "'' ''" 2 scenario1]
        handleLabelChange_exact_strings [of "''A''" "''A''" 2 scenario1]
  by simp

subsection \<open>Directory failures\<close>

text \<open>
  C7, as the code behaves. \<open>getLabelMap\<close> itself catches a listing that raises or
  answers without a payload and returns the empty map, but the degradation the claim
  describes does not reach the callers. With the row \<open>Work\<close>, an account without
  labels and a listing that raises, \<open>syncAllLabels\<close> first treats the account as empty
  and creates \<open>Work\<close>, then calls the listing once more itself, outside any handler, and
  the error of the listing leaves \<open>syncAllLabels\<close>. And a lookup on the empty map does
  not answer null for every name: for \<open>constructor\<close> it answers the function that
  the map object inherits, so that a create of that name takes the label for an existing
  one and creates nothing.
\<close>

theorem directory_failure_reaches_caller:
  "listing (gmail listing_raises) = ListThrows ''Service error''
   \<and> fst (getLabelMap listing_raises) ''Work'' = None
   \<and> fst (syncAllLabels listing_raises) = Raised ''Service error''
   \<and> new_calls (gmail listing_raises) (gmail (snd (syncAllLabels listing_raises))) =
        [CreateLabel ''Work'']
   \<and> fst (getLabelMap listing_raises) ''constructor'' = None
   \<and> fst (getLabelId ''constructor'' listing_raises) \<noteq> None
   \<and> new_calls (gmail listing_raises) (gmail (handleLabelChange 2 [] ''constructor'' listing_raises)) = []"
  by code_simp

subsection \<open>Deletion guard\<close>

text \<open>
  C2, as stated, fails: a delete intent on a label that threads carry is not always
  answered by a refusal that restores the row. \<open>INBOX\<close> is found by the directory but
  has no user-label object, so the id cell of its row is cleared, the name cell stays
  empty and nothing is reported (the account is left alone all the same).
\<close>

theorem delete_system_label_counterexample:
  "inbox_label \<in> set (labels (gmail inbox_cleared))
   \<and> length (GmailApp_search_label ''INBOX'' (gmail inbox_cleared)) = 1
   \<and> getValue 2 LABEL_ID_COLUMN (sheet inbox_cleared) = ''INBOX''
   \<and> getValue 2 NAME_COLUMN (sheet (handleLabelChange 2 ''INBOX'' [] inbox_cleared)) = []
   \<and> getValue 2 LABEL_ID_COLUMN (sheet (handleLabelChange 2 ''INBOX'' [] inbox_cleared)) = []
   \<and> filter (\<lambda>e. case e of Toast m t \<Rightarrow> True | _ \<Rightarrow> False)
         (logs (handleLabelChange 2 ''INBOX'' [] inbox_cleared)) = []"
  by code_simp

text \<open>
  C2, amended. A delete intent (the name edited from a label name to empty) on a name for
  which the search finds at least one thread never changes the account: the label and
  the tags stay. When moreover the listing is available, the account is well formed and
  the label is a user label with a non-empty name, the deletion is refused on a data
  row: the name cell of the row holds the label name again, every other cell of the
  sheet (the id cell of the row among them) is as before, and a warning with the number
  of threads is shown. When instead the directory lookup or the user-label lookup does
  not find the name (non-empty, on a data row), the id cell of the row is cleared, every
  other cell of the sheet is as before (the name cell stays empty), the account is
  unchanged and nothing is shown to the user. The directory lookup finds no name that is
  not a member of \<^verbatim>\<open>Object.prototype\<close> when the listing is unavailable, and the user-label
  lookup finds no label of type system of a well-formed account.
\<close>

theorem deleteLabel_refuses_label_in_use:
  "(1 \<le> length (GmailApp_search_label labelName (gmail w)) \<longrightarrow>
      gmail (handleLabelChange row labelName [] w) = gmail w)
   \<and> (listing (gmail w) = ListOk \<and> wf_gmail (gmail w) \<and>
       l \<in> set (labels (gmail w)) \<and> rl_type l = User \<and> rl_name l \<noteq> [] \<and>
       1 \<le> length (GmailApp_search_label (rl_name l) (gmail w)) \<and> HEADER_ROW < row \<longrightarrow>
         getValue row NAME_COLUMN (sheet (handleLabelChange row (rl_name l) [] w)) = rl_name l
       \<and> (\<forall>r c. (r, c) \<noteq> (row, NAME_COLUMN) \<longrightarrow>
            getValue r c (sheet (handleLabelChange row (rl_name l) [] w)) = getValue r c (sheet w))
       \<and> Toast (''Cannot delete label '' @ quoted (rl_name l) @ '' as it still has '' @
                 show_nat (length (GmailApp_search_label (rl_name l) (gmail w))) @
                 '' threads using it.'') ''Warning''
           \<in> set (logs (handleLabelChange row (rl_name l) [] w)))
   \<and> (labelName \<noteq> [] \<and> HEADER_ROW < row \<and>
       (lookup_id labelName (gmail w) = None \<or>
        GmailApp_getUserLabelByName labelName (gmail w) = None) \<longrightarrow>
         getValue row LABEL_ID_COLUMN (sheet (handleLabelChange row labelName [] w)) = []
       \<and> (\<forall>r c. (r, c) \<noteq> (row, LABEL_ID_COLUMN) \<longrightarrow>
            getValue r c (sheet (handleLabelChange row labelName [] w)) = getValue r c (sheet w))
       \<and> gmail (handleLabelChange row labelName [] w) = gmail w
       \<and> toasts (handleLabelChange row labelName [] w) = toasts w)
   \<and> (listing (gmail w) \<noteq> ListOk \<and> \<not> proto_member labelName \<longrightarrow>
        lookup_id labelName (gmail w) = None)
   \<and> (wf_gmail (gmail w) \<and> l \<in> set (labels (gmail w)) \<and> rl_type l = System \<longrightarrow>
        GmailApp_getUserLabelByName (rl_name l) (gmail w) = None)"
proof (intro conjI impI)
  assume "1 \<le> length (GmailApp_search_label labelName (gmail w))"
  then show "gmail (handleLabelChange row labelName [] w) = gmail w"
    by (rule handleLabelChange_delete_in_use)
next
  assume a: "listing (gmail w) = ListOk \<and> wf_gmail (gmail w) \<and>
       l \<in> set (labels (gmail w)) \<and> rl_type l = User \<and> rl_name l \<noteq> [] \<and>
       1 \<le> length (GmailApp_search_label (rl_name l) (gmail w)) \<and> HEADER_ROW < row"
  obtain i where id: "lookup_id (rl_name l) (gmail w) = Some i"
    using a lookup_id_found[of "gmail w" l] by auto
  have h: "GmailApp_getUserLabelByName (rl_name l) (gmail w) = Some l"
    using a by (simp add: getUserLabelByName_Some wf_gmail_def)
  have len: "0 < length (GmailApp_search_label (rl_name l) (gmail w))"
    using a by (cases "GmailApp_search_label (rl_name l) (gmail w)") auto
  have all: "getValue row NAME_COLUMN (sheet (handleLabelChange row (rl_name l) [] w)) = rl_name l
       \<and> (\<forall>r c. (r, c) \<noteq> (row, NAME_COLUMN) \<longrightarrow>
            getValue r c (sheet (handleLabelChange row (rl_name l) [] w)) = getValue r c (sheet w))
       \<and> Toast (''Cannot delete label '' @ quoted (rl_name l) @ '' as it still has '' @
                 show_nat (length (GmailApp_search_label (rl_name l) (gmail w))) @
                 '' threads using it.'') ''Warning''
           \<in> set (logs (handleLabelChange row (rl_name l) [] w))"
    using a id h len
    by (simp add: handleLabelChange_def deleteLabel_def Let_def case_prod_beta getValue_setValue)
  show "getValue row NAME_COLUMN (sheet (handleLabelChange row (rl_name l) [] w)) = rl_name l"
    using all by simp
  show "\<forall>r c. (r, c) \<noteq> (row, NAME_COLUMN) \<longrightarrow>
            getValue r c (sheet (handleLabelChange row (rl_name l) [] w)) = getValue r c (sheet w)"
    using all by simp
  show "Toast (''Cannot delete label '' @ quoted (rl_name l) @ '' as it still has '' @
                 show_nat (length (GmailApp_search_label (rl_name l) (gmail w))) @
                 '' threads using it.'') ''Warning''
           \<in> set (logs (handleLabelChange row (rl_name l) [] w))"
    using all by simp
next
  assume b: "labelName \<noteq> [] \<and> HEADER_ROW < row \<and>
       (lookup_id labelName (gmail w) = None \<or>
        GmailApp_getUserLabelByName labelName (gmail w) = None)"
  define w0 where "w0 = logDebug (''Processing label change: '' @ quoted labelName @ '' -> '' @ quoted []) w"
  have hc: "handleLabelChange row labelName [] w = deleteLabel row labelName w0"
    using b by (simp add: handleLabelChange_def Let_def w0_def)
  have nf: "lookup_id labelName (gmail w0) = None \<or>
        GmailApp_getUserLabelByName labelName (gmail w0) = None"
    using b by (simp add: w0_def)
  note d = deleteLabel_not_found[OF nf, of row]
  have s0: "sheet w0 = sheet w" "gmail w0 = gmail w" "toasts w0 = toasts w"
    by (simp_all add: w0_def)
  show "getValue row LABEL_ID_COLUMN (sheet (handleLabelChange row labelName [] w)) = []"
    using b unfolding hc d(1) s0 by (simp add: getValue_clearContent)
  show "\<forall>r c. (r, c) \<noteq> (row, LABEL_ID_COLUMN) \<longrightarrow>
            getValue r c (sheet (handleLabelChange row labelName [] w)) = getValue r c (sheet w)"
    unfolding hc d(1) s0 by (simp add: getValue_clearContent)
  show "gmail (handleLabelChange row labelName [] w) = gmail w"
    unfolding hc d(2) s0 by (rule refl)
  show "toasts (handleLabelChange row labelName [] w) = toasts w"
    unfolding hc d(3) s0 by (rule refl)
next
  assume "listing (gmail w) \<noteq> ListOk \<and> \<not> proto_member labelName"
  then show "lookup_id labelName (gmail w) = None"
    by (simp add: lookup_id_unavailable)
next
  assume "wf_gmail (gmail w) \<and> l \<in> set (labels (gmail w)) \<and> rl_type l = System"
  then show "GmailApp_getUserLabelByName (rl_name l) (gmail w) = None"
    by (simp add: getUserLabelByName_system)
qed

theorem deleteLabel_refuses_label_in_use_witness:
  "listing (gmail scenario4) = ListOk \<and> wf_gmail (gmail scenario4)
   \<and> old_label \<in> set (labels (gmail scenario4)) \<and> rl_type old_label = User
   \<and> length (GmailApp_search_label (rl_name old_label) (gmail scenario4)) = 3
   \<and> gmail (handleLabelChange 2 ''Old'' [] scenario4) = gmail scenario4
   \<and> getValue 2 NAME_COLUMN (sheet (handleLabelChange 2 ''Old'' [] scenario4)) = ''Old''
   \<and> getValue 2 LABEL_ID_COLUMN (sheet (handleLabelChange 2 ''Old'' [] scenario4)) = ''Label_1''
   \<and> Toast (''Cannot delete label '' @ quoted ''Old'' @ '' as it still has 3 threads using it.'')
        ''Warning'' \<in> set (logs (handleLabelChange 2 ''Old'' [] scenario4))
   \<and> listing (gmail listing_down) \<noteq> ListOk \<and> \<not> proto_member ''Old''
   \<and> lookup_id ''Old'' (gmail listing_down) = None
   \<and> getValue 2 LABEL_ID_COLUMN (sheet listing_down) = ''Label_1''
   \<and> getValue 2 LABEL_ID_COLUMN (sheet (handleLabelChange 2 ''Old'' [] listing_down)) = []
   \<and> gmail (handleLabelChange 2 ''Old'' [] listing_down) = gmail listing_down
   \<and> toasts (handleLabelChange 2 ''Old'' [] listing_down) = []
   \<and> rl_type inbox_label = System
   \<and> GmailApp_getUserLabelByName ''INBOX'' (gmail scenario4) = None"
proof -
  have h1: "listing (gmail scenario4) = ListOk" by (simp add: example_defs)
  have h2: "wf_gmail (gmail scenario4)" by (simp add: example_defs wf_gmail_def)
  have h3: "old_label \<in> set (labels (gmail scenario4))" by (simp add: example_defs)
  have h4: "rl_type old_label = User" by (simp add: example_defs)
  have n: "rl_name old_label = ''Old''" by (simp add: example_defs)
  have h5: "length (GmailApp_search_label ''Old'' (gmail scenario4)) = 3"
    by (simp add: example_defs GmailApp_search_label_def)
  have h6: "HEADER_ROW < 2" by (simp add: HEADER_ROW_def)
  have s3: "show_nat 3 = ''3''" by (simp add: show_nat.simps digit_char_def)
  have idc: "getValue 2 LABEL_ID_COLUMN (sheet scenario4) = ''Label_1''"
    by (simp add: example_defs getValue_def config_defs)
  have d1: "listing (gmail listing_down) \<noteq> ListOk" by (simp add: example_defs)
  have d2: "\<not> proto_member ''Old''" by (simp add: proto_member_def)
  have d3: "getValue 2 LABEL_ID_COLUMN (sheet listing_down) = ''Label_1''"
    by (simp add: example_defs getValue_def config_defs)
  have d4: "toasts listing_down = []" by (simp add: example_defs toasts_def)
  have i1: "inbox_label \<in> set (labels (gmail scenario4))" by (simp add: example_defs)
  have i2: "rl_type inbox_label = System" by (simp add: example_defs)
  have i3: "rl_name inbox_label = ''INBOX''" by (simp add: example_defs)
  note A = deleteLabel_refuses_label_in_use
    [where labelName = "''Old''" and w = scenario4 and row = 2 and l = old_label]
  note B = deleteLabel_refuses_label_in_use
    [where labelName = "''Old''" and w = listing_down and row = 2 and l = old_label]
  note C = deleteLabel_refuses_label_in_use
    [where labelName = "''INBOX''" and w = scenario4 and row = 2 and l = inbox_label]
  have a: "gmail (handleLabelChange 2 ''Old'' [] scenario4) = gmail scenario4
     \<and> getValue 2 NAME_COLUMN (sheet (handleLabelChange 2 ''Old'' [] scenario4)) = ''Old''
     \<and> getValue 2 LABEL_ID_COLUMN (sheet (handleLabelChange 2 ''Old'' [] scenario4)) = ''Label_1''
     \<and> Toast (''Cannot delete label '' @ quoted ''Old'' @ '' as it still has 3 threads using it.'')
        ''Warning'' \<in> set (logs (handleLabelChange 2 ''Old'' [] scenario4))"
    using A h1 h2 h3 h4 h5 h6 idc s3 by (simp add: n config_defs)
  have b0: "lookup_id ''Old'' (gmail listing_down) = None"
    using B d1 d2 by blast
  have b: "getValue 2 LABEL_ID_COLUMN (sheet (handleLabelChange 2 ''Old'' [] listing_down)) = []
     \<and> gmail (handleLabelChange 2 ''Old'' [] listing_down) = gmail listing_down
     \<and> toasts (handleLabelChange 2 ''Old'' [] listing_down) = []"
    using B b0 h6 d4 by simp
  have c: "GmailApp_getUserLabelByName ''INBOX'' (gmail scenario4) = None"
    using C h2 i1 i2 i3 by simp
  show ?thesis
    using a b b0 c h1 h2 h3 h4 h5 d1 d2 d3 i2 by (simp add: n)
qed

subsection \<open>What the sync returns\<close>

text \<open>
  C3, as the code behaves: \<open>syncAllLabels\<close> never returns a record with the lists
  \<open>createdInGmail\<close> and \<open>addedToSheet\<close> (it ends without a return statement), and the
  auto sync on open, which hands the returned value to \<open>showSyncResults\<close>, therefore
  always ends in the failure toast.
\<close>

theorem syncAllLabels_returns_no_result:
  "fst (syncAllLabels w) \<noteq> Returned (Some r)
   \<and> Toast ''Auto sync failed - check logs'' ''Error'' \<in> set (logs (onOpenWithFullPermissions True w))"
  by (auto simp: syncAllLabels_def onOpenWithFullPermissions_def showSyncResults_def Let_def
           case_prod_beta logDebug_def 
           split: sum.splits option.splits prod.splits completion.splits)

subsection \<open>Rename: batches and order\<close>

text \<open>
  C5, as stated, fails: not every rename of a label that threads carry re-tags them,
  deletes the old label and writes the new id. \<open>INBOX\<close> is found by the directory but
  has no user-label object: the rename creates \<open>X\<close> and stops, with no thread
  re-tagged, \<open>INBOX\<close> still there and the id cell as before.
\<close>

theorem rename_system_label_counterexample:
  "inbox_label \<in> set (labels (gmail scenario_inbox))
   \<and> GmailApp_search_label ''INBOX'' (gmail scenario_inbox) = [1]
   \<and> new_calls (gmail scenario_inbox) (gmail (handleLabelChange 2 ''INBOX'' ''X'' scenario_inbox)) =
        [CreateLabel ''X'']
   \<and> inbox_label \<in> set (labels (gmail (handleLabelChange 2 ''INBOX'' ''X'' scenario_inbox)))
   \<and> threads (gmail (handleLabelChange 2 ''INBOX'' ''X'' scenario_inbox)) = threads (gmail scenario_inbox)
   \<and> getValue 2 LABEL_ID_COLUMN (sheet (handleLabelChange 2 ''INBOX'' ''X'' scenario_inbox)) = ''INBOX''"
  by code_simp

text \<open>
  C5, amended. A rename of a user label of a well-formed account to a different name that
  no system-typed label bears, with the listing available, makes exactly these calls, in
  this order: the creation of the missing ancestors, the creation of the new label, the
  new label added to the tagged threads batch by batch, the old label removed from them
  batch by batch, and the deletion of the old label. The batches are the consecutive
  slices of 100 of the threads found for the old label (all of size 100 except a shorter
  last one, so 250 threads give 100, 100 and 50); together they are these threads.
  Afterwards the old label is gone, the new one is there, and the id cell of the row
  holds its id (for every new name but \<^verbatim>\<open>__proto__\<close>, the one key that the label map, a
  plain object, cannot hold).
\<close>

theorem updateLabel_retags_in_batches:
  assumes "listing (gmail w) = ListOk" and "wf_gmail (gmail w)"
    and "oldLabel \<in> set (labels (gmail w))" and "rl_type oldLabel = User"
    and "\<forall>l\<in>set (labels (gmail w)). rl_name l = new \<longrightarrow> rl_type l = User"
    and "rl_name oldLabel \<noteq> new" and "HEADER_ROW < row"
  shows "\<exists>newLabel ps.
      (let ths = GmailApp_search_label (rl_name oldLabel) (gmail w);
           w' = updateLabel row (rl_name oldLabel) new w
       in new_calls (gmail w) (gmail w') =
            map CreateLabel ps @ [CreateLabel new] @
            map (AddToThreads newLabel) (thread_batches ths 0) @
            map (RemoveFromThreads oldLabel) (thread_batches ths 0) @
            [DeleteLabel oldLabel]
        \<and> set ps \<subseteq> set (parent_paths new)
        \<and> concat (thread_batches ths 0) = ths
        \<and> map length (thread_batches ths 0) =
            replicate (length ths div 100) 100 @
            (if length ths mod 100 = 0 then [] else [length ths mod 100])
        \<and> (length ths = 250 \<longrightarrow> map length (thread_batches ths 0) = [100, 100, 50])
        \<and> rl_name newLabel = new \<and> rl_type newLabel = User
        \<and> newLabel \<in> set (labels (gmail w')) \<and> oldLabel \<notin> set (labels (gmail w'))
        \<and> (new \<noteq> proto_key \<longrightarrow> getValue row LABEL_ID_COLUMN (sheet w') = rl_id newLabel))"
proof -
  define g where "g = gmail w"
  define old where "old = rl_name oldLabel"
  define ps where "ps = created_parents (parent_paths new) g"
  define gP where "gP = gmail (addParentLabelsToSheet new w)"
  define g1 where "g1 = after_new_label new w"
  define ths where "ths = GmailApp_search_label old g"
  have gP: "gP = fold GmailApp_createLabel ps g"
    by (simp add: gP_def ps_def g_def addParentLabelsToSheet_gmail)
  have g1: "g1 = fold GmailApp_createLabel (ps @ [new]) g"
    by (simp add: g1_def after_new_label_eq ps_def g_def)
  have ok1: "listing g1 = ListOk" "wf_gmail g1"
    using assms(1,2) by (simp_all add: g1 g_def fold_create_wf del: fold_append)
  have old_in: "old \<in> remote_names g"
    using assms(3) by (auto simp: remote_names_def old_def g_def)
  obtain oi where oid: "lookup_id old g = Some oi"
    using lookup_id_found[OF assms(1-3)] by (auto simp: old_def g_def)
  have hold: "GmailApp_getUserLabelByName old g = Some oldLabel"
    using assms(2-4) by (simp add: getUserLabelByName_Some wf_gmail_def old_def g_def)
  have hold1: "GmailApp_getUserLabelByName old g1 = Some oldLabel"
    unfolding g1 by (simp only: fold_create_keeps_present(1)[OF old_in] hold)
  have thsP: "GmailApp_search_label old gP = ths"
    unfolding gP ths_def by (simp only: fold_create_keeps_present(2)[OF old_in])
  obtain extra where extra: "labels g1 = labels g @ extra"
    "list_all (\<lambda>l. rl_type l = User \<and> rl_name l \<in> set (ps @ [new]) - remote_names g) extra"
    unfolding g1 using fold_create_labels by blast
  have "new \<in> remote_names g1" by (simp add: g1 del: fold_append)
  then obtain newLabel where nl: "newLabel \<in> set (labels g1)" "rl_name newLabel = new"
    by (auto simp: remote_names_def)
  have nlU: "rl_type newLabel = User"
    using nl extra assms(5) by (auto simp: list_all_iff g_def)
  have hnew1: "GmailApp_getUserLabelByName new g1 = Some newLabel"
    using getUserLabelByName_Some[of g1 newLabel] ok1 nl nlU by (simp add: wf_gmail_def)
  obtain ni where nid: "lookup_id new g1 = Some ni"
    using lookup_id_found[OF ok1 nl(1)] nl(2) by auto
  have nid_eq: "ni = rl_id newLabel" if "new \<noteq> proto_key"
    using lookup_id_wf[OF ok1 nl(1)] nl(2) nid that by simp
  have old1: "oldLabel \<in> set (labels g1)"
    using assms(3) extra(1) by (simp add: g_def)
  have neq: "newLabel \<noteq> oldLabel" using nl(2) assms(6) by auto
  define gF where "gF = label_deleteLabel oldLabel
      (remove_batches oldLabel ths 0 (add_batches newLabel ths 0 g1))"
  have gm: "gmail (updateLabel row old new w) = gF"
    using updateLabel_found[of old w oi row new] oid nid hold1 hnew1 thsP
    by (simp add: g_def g1_def gP_def gF_def)
  have sh: "sheet (updateLabel row old new w) =
      setValue row LABEL_ID_COLUMN ni (sheet (addParentLabelsToSheet new w))"
    using updateLabel_found_sheet[of old w oi row new] oid nid hold1 hnew1
    by (simp add: g_def g1_def)
  have labF: "labels gF = remove1 oldLabel (labels g1)"
    by (simp add: gF_def label_deleteLabel_def remove_batches_effect add_batches_effect)
  have callsF: "calls gF = calls g @ (map CreateLabel ps @ [CreateLabel new] @
      map (AddToThreads newLabel) (thread_batches ths 0) @
      map (RemoveFromThreads oldLabel) (thread_batches ths 0) @ [DeleteLabel oldLabel])"
    by (simp add: gF_def label_deleteLabel_def remove_batches_effect add_batches_effect g1)
  have c1: "new_calls g gF = map CreateLabel ps @ [CreateLabel new] @
      map (AddToThreads newLabel) (thread_batches ths 0) @
      map (RemoveFromThreads oldLabel) (thread_batches ths 0) @ [DeleteLabel oldLabel]"
    by (rule new_calls_append[OF callsF])
  have c2: "set ps \<subseteq> set (parent_paths new)"
    by (simp add: ps_def created_parents_subset)
  have c3: "concat (thread_batches ths 0) = ths" by (simp add: thread_batches_concat)
  have c4: "map length (thread_batches ths 0) =
      replicate (length ths div 100) 100 @ (if length ths mod 100 = 0 then [] else [length ths mod 100])"
    using thread_batches_lengths[of ths 0] by (simp add: BATCH_SIZE_def)
  have c5: "length ths = 250 \<longrightarrow> map length (thread_batches ths 0) = [100, 100, 50]"
    by (simp add: thread_batches_250)
  have c6: "newLabel \<in> set (labels gF)" using nl(1) neq by (simp add: labF)
  have c7: "oldLabel \<notin> set (labels gF)"
    using wf_distinct_labels[OF ok1(2)] by (simp add: labF)
  have c8: "new \<noteq> proto_key \<longrightarrow>
      getValue row LABEL_ID_COLUMN (sheet (updateLabel row old new w)) = rl_id newLabel"
    using assms(7) nid_eq by (simp add: sh getValue_setValue)
  show ?thesis
    apply (rule exI[of _ newLabel], rule exI[of _ ps])
    unfolding Let_def old_def[symmetric] g_def[symmetric] ths_def[symmetric] gm
    using c1 c2 c3 c4 c5 c6 c7 c8 nl(2) nlU unfolding gm by blast
qed

theorem updateLabel_retags_in_batches_witness:
  "listing (gmail scenario5) = ListOk \<and> wf_gmail (gmail scenario5)
   \<and> old_label \<in> set (labels (gmail scenario5)) \<and> rl_type old_label = User
   \<and> rl_name old_label \<noteq> ''New'' \<and> HEADER_ROW < 2 \<and> ''New'' \<noteq> proto_key
   \<and> GmailApp_search_label ''Old'' (gmail scenario5) = [1, 2, 3]
   \<and> old_label \<notin> set (labels (gmail (updateLabel 2 ''Old'' ''New'' scenario5)))
   \<and> (\<exists>newLabel. rl_name newLabel = ''New''
        \<and> newLabel \<in> set (labels (gmail (updateLabel 2 ''Old'' ''New'' scenario5)))
        \<and> getValue 2 LABEL_ID_COLUMN (sheet (updateLabel 2 ''Old'' ''New'' scenario5)) = rl_id newLabel
        \<and> new_calls (gmail scenario5) (gmail (updateLabel 2 ''Old'' ''New'' scenario5)) =
             [CreateLabel ''New'', AddToThreads newLabel [1, 2, 3],
              RemoveFromThreads old_label [1, 2, 3], DeleteLabel old_label])"
proof -
  have h1: "listing (gmail scenario5) = ListOk" by (simp add: example_defs)
  have h2: "wf_gmail (gmail scenario5)" by (simp add: example_defs wf_gmail_def)
  have h3: "old_label \<in> set (labels (gmail scenario5))" by (simp add: example_defs)
  have h4: "rl_type old_label = User" by (simp add: example_defs)
  have h5: "\<forall>l\<in>set (labels (gmail scenario5)). rl_name l = ''New'' \<longrightarrow> rl_type l = User"
    by (simp add: example_defs)
  have n: "rl_name old_label = ''Old''" by (simp add: example_defs)
  have h6: "rl_name old_label \<noteq> ''New''" by (simp add: example_defs)
  have h7: "HEADER_ROW < 2" by (simp add: HEADER_ROW_def)
  have ths: "GmailApp_search_label ''Old'' (gmail scenario5) = [1, 2, 3]"
    by (simp add: example_defs GmailApp_search_label_def)
  have pp: "parent_paths ''New'' = []" by (simp add: parent_paths_def)
  have tb: "thread_batches [1, 2, 3] 0 = [[1, 2, 3]]"
    by (simp add: thread_batches.simps BATCH_SIZE_def)
  from updateLabel_retags_in_batches [OF h1 h2 h3 h4 h5 h6 h7]
  obtain newLabel ps where r:
    "new_calls (gmail scenario5) (gmail (updateLabel 2 ''Old'' ''New'' scenario5)) =
       map CreateLabel ps @ [CreateLabel ''New''] @ map (AddToThreads newLabel) [[1, 2, 3]] @
       map (RemoveFromThreads old_label) [[1, 2, 3]] @ [DeleteLabel old_label]"
    "set ps \<subseteq> set (parent_paths ''New'')"
    "rl_name newLabel = ''New''"
    "newLabel \<in> set (labels (gmail (updateLabel 2 ''Old'' ''New'' scenario5)))"
    "old_label \<notin> set (labels (gmail (updateLabel 2 ''Old'' ''New'' scenario5)))"
    "''New'' \<noteq> proto_key \<longrightarrow>
       getValue 2 LABEL_ID_COLUMN (sheet (updateLabel 2 ''Old'' ''New'' scenario5)) = rl_id newLabel"
    unfolding Let_def n ths tb by blast
  have h8: "''New'' \<noteq> proto_key" by (simp add: proto_key_def)
  from r(2) have "ps = []" by (simp add: pp)
  with r h1 h2 h3 h4 h6 h7 h8 ths show ?thesis by auto
qed

subsection \<open>Rename: no atomicity\<close>

text \<open>
  C10. When the old label is found by the directory, the calls of a rename are
  creations of ancestors of the new name, then the creation of the new label, then
  calls that create nothing (the re-tagging and the deletion): the new label is created
  before any thread is re-tagged and before the old label is deleted. If the label
  object of the old or of the new label is then not found, the rename stops in the state
  reached by that creation: every label of the account before, the old one included, is
  still there, the threads and their tags are untouched, the new label exists, and the
  cells of the rows in use, the id cell of the edited row among them, are as before.
\<close>

theorem updateLabel_not_atomic:
  assumes "lookup_id old (gmail w) = Some oid"
  shows "(\<exists>ps rest.
            new_calls (gmail w) (gmail (updateLabel row old new w)) =
              map CreateLabel ps @ CreateLabel new # rest
          \<and> set ps \<subseteq> set (parent_paths new) \<and> (\<forall>n. CreateLabel n \<notin> set rest))
       \<and> (GmailApp_getUserLabelByName old (after_new_label new w) = None \<or>
           GmailApp_getUserLabelByName new (after_new_label new w) = None \<longrightarrow>
             gmail (updateLabel row old new w) = after_new_label new w
           \<and> (\<forall>l\<in>set (labels (gmail w)). l \<in> set (labels (gmail (updateLabel row old new w))))
           \<and> threads (gmail (updateLabel row old new w)) = threads (gmail w)
           \<and> new \<in> remote_names (gmail (updateLabel row old new w))
           \<and> (\<forall>r c. r \<le> getLastRow (sheet w) \<longrightarrow>
                getValue r c (sheet (updateLabel row old new w)) = getValue r c (sheet w)))"
proof -
  define g1 where "g1 = after_new_label new w"
  define ps where "ps = created_parents (parent_paths new) (gmail w)"
  define ths where "ths = GmailApp_search_label old (gmail (addParentLabelsToSheet new w))"
  have g1: "g1 = fold GmailApp_createLabel (ps @ [new]) (gmail w)"
    by (simp add: g1_def after_new_label_eq ps_def)
  have calls1: "calls g1 = calls (gmail w) @ map CreateLabel ps @ [CreateLabel new]"
    by (simp add: g1_def after_new_label_calls ps_def)
  have sub: "set ps \<subseteq> set (parent_paths new)" by (simp add: ps_def created_parents_subset)
  note gm = updateLabel_found[OF assms, of row new, folded g1_def ths_def]
  note sh = updateLabel_found_sheet[OF assms, of row new, folded g1_def]
  have early: "gmail (updateLabel row old new w) = g1
      \<and> sheet (updateLabel row old new w) = sheet (addParentLabelsToSheet new w)"
    if "GmailApp_getUserLabelByName old g1 = None \<or> GmailApp_getUserLabelByName new g1 = None"
    using that by (auto simp: gm sh split: option.splits)
  have a: "\<exists>rest. calls (gmail (updateLabel row old new w)) = calls g1 @ rest
      \<and> (\<forall>n. CreateLabel n \<notin> set rest)"
    by (auto simp: gm label_deleteLabel_def remove_batches_effect add_batches_effect
        split: option.splits)
  then obtain rest where rest: "calls (gmail (updateLabel row old new w)) = calls g1 @ rest"
    "\<forall>n. CreateLabel n \<notin> set rest" by blast
  have "new_calls (gmail w) (gmail (updateLabel row old new w)) = map CreateLabel ps @ CreateLabel new # rest"
    by (rule new_calls_append) (simp add: rest(1) calls1)
  then have part1: "\<exists>ps rest.
            new_calls (gmail w) (gmail (updateLabel row old new w)) =
              map CreateLabel ps @ CreateLabel new # rest
          \<and> set ps \<subseteq> set (parent_paths new) \<and> (\<forall>n. CreateLabel n \<notin> set rest)"
    using sub rest(2) by blast
  obtain extra where extra: "labels g1 = labels (gmail w) @ extra"
    unfolding g1 using fold_create_labels by blast
  have keep: "\<forall>l\<in>set (labels (gmail w)). l \<in> set (labels g1)" by (simp add: extra)
  have th: "threads g1 = threads (gmail w)" by (simp add: g1 del: fold_append)
  have nm: "new \<in> remote_names g1" by (simp add: g1 del: fold_append)
  have rows: "\<forall>r c. r \<le> getLastRow (sheet w) \<longrightarrow>
      getValue r c (sheet (addParentLabelsToSheet new w)) = getValue r c (sheet w)"
    by (simp add: addParentLabelsToSheet_keeps_rows)
  show ?thesis
    unfolding g1_def[symmetric]
    using part1 early keep th nm rows by simp
qed

theorem updateLabel_not_atomic_witness:
  "lookup_id ''INBOX'' (gmail scenario_inbox) = Some ''INBOX''
   \<and> GmailApp_getUserLabelByName ''INBOX'' (after_new_label ''X'' scenario_inbox) = None
   \<and> inbox_label \<in> set (labels (gmail (updateLabel 2 ''INBOX'' ''X'' scenario_inbox)))
   \<and> ''X'' \<in> remote_names (gmail (updateLabel 2 ''INBOX'' ''X'' scenario_inbox))
   \<and> threads (gmail (updateLabel 2 ''INBOX'' ''X'' scenario_inbox)) = threads (gmail scenario_inbox)
   \<and> getValue 2 LABEL_ID_COLUMN (sheet (updateLabel 2 ''INBOX'' ''X'' scenario_inbox)) = ''INBOX''"
proof -
  have h1: "lookup_id ''INBOX'' (gmail scenario_inbox) = Some ''INBOX''"
    by code_simp
  have h2: "GmailApp_getUserLabelByName ''INBOX'' (after_new_label ''X'' scenario_inbox) = None"
    by (simp add: example_defs after_new_label_def addParentLabelsToSheet_def
        GmailApp_createLabel_def GmailApp_getUserLabelByName_def)
  have l: "inbox_label \<in> set (labels (gmail scenario_inbox))"
    by (simp add: example_defs)
  have r: "2 \<le> getLastRow (sheet scenario_inbox)"
    by (simp add: example_defs getLastRow_def is_blank_def HEADER_ROW_def)
  have v: "getValue 2 LABEL_ID_COLUMN (sheet scenario_inbox) = ''INBOX''"
    by (simp add: example_defs getValue_def config_defs)
  from updateLabel_not_atomic [OF h1, of 2 "''X''"] h2 l r v h1
  show ?thesis by auto
qed

subsection \<open>Ancestors of a nested name\<close>




subsection \<open>Conservation of the merge sync\<close>

text \<open>
  C1, as stated, fails: the name sets after a sync are not the union of the name sets
  before it. With the one row \<open>Proj/Sub\<close> and an account without labels, the sync
  also creates the parent \<open>Proj\<close> in the account and then appends it to the sheet.
\<close>

theorem syncAllLabels_union_counterexample:
  "''Proj'' \<in> remote_names (gmail (snd (syncAllLabels scenario3)))
   \<and> ''Proj'' \<in> local_names (sheet (snd (syncAllLabels scenario3)))
   \<and> ''Proj'' \<notin> local_names (sheet scenario3) \<union> remote_names (gmail scenario3)"
  by code_simp

text \<open>
  C1, amended. A sync never removes or renames a row (the name cell of every row in use
  is as before, so every name of the sheet stays) and never deletes or renames a label
  (the labels of the account are the old ones followed by new ones, the threads are
  untouched, and every call made is a creation). With the listing available, a
  well-formed account, no sheet name starting with a slash, and no sheet name, proper
  ancestor path of a sheet name or label name of the account that names a member of
  \<^verbatim>\<open>Object.prototype\<close>, the label names of the account afterwards are those before, the
  names of the sheet, and the proper ancestor paths of the sheet names that the account
  lacked; the names of the sheet afterwards are those before and the non-empty names of
  the labels of the account afterwards that are not system labels.
\<close>

theorem syncAllLabels_conservation:
  "(\<forall>r. r \<le> getLastRow (sheet w) \<longrightarrow>
       getValue r NAME_COLUMN (sheet (snd (syncAllLabels w))) = getValue r NAME_COLUMN (sheet w))
   \<and> local_names (sheet w) \<subseteq> local_names (sheet (snd (syncAllLabels w)))
   \<and> (\<exists>new. labels (gmail (snd (syncAllLabels w))) = labels (gmail w) @ new)
   \<and> threads (gmail (snd (syncAllLabels w))) = threads (gmail w)
   \<and> (\<exists>ps. new_calls (gmail w) (gmail (snd (syncAllLabels w))) = map CreateLabel ps)
   \<and> (listing (gmail w) = ListOk \<and> wf_gmail (gmail w) \<and>
       (\<forall>n\<in>local_names (sheet w). hd n \<noteq> CHR ''/'') \<and>
       (\<forall>n\<in>local_names (sheet w). \<not> proto_member n) \<and>
       (\<forall>n\<in>local_names (sheet w). \<forall>p\<in>set (ancestor_paths n). \<not> proto_member p) \<and>
       (\<forall>n\<in>remote_names (gmail w). \<not> proto_member n) \<longrightarrow>
         remote_names (gmail (snd (syncAllLabels w))) =
           remote_names (gmail w) \<union> local_names (sheet w) \<union>
           (\<Union>n\<in>local_names (sheet w) - remote_names (gmail w). set (ancestor_paths n))
       \<and> local_names (sheet (snd (syncAllLabels w))) =
           local_names (sheet w) \<union>
           ({rl_name l | l. l \<in> set (labels (gmail (snd (syncAllLabels w)))) \<and> \<not> is_system_label l} - {[]}))"
proof (intro conjI impI allI)
  fix r assume "r \<le> getLastRow (sheet w)"
  then show "getValue r NAME_COLUMN (sheet (snd (syncAllLabels w))) = getValue r NAME_COLUMN (sheet w)"
    by (rule syncAllLabels_sheet_keeps)
next
  show "local_names (sheet w) \<subseteq> local_names (sheet (snd (syncAllLabels w)))"
    by (rule syncAllLabels_local_subset)
next
  show "\<exists>new. labels (gmail (snd (syncAllLabels w))) = labels (gmail w) @ new"
    unfolding syncAllLabels_gmail after_step2_gmail using fold_create_labels by blast
next
  show "threads (gmail (snd (syncAllLabels w))) = threads (gmail w)"
    by (simp add: syncAllLabels_gmail after_step2_gmail)
next
  show "\<exists>ps. new_calls (gmail w) (gmail (snd (syncAllLabels w))) = map CreateLabel ps"
    unfolding syncAllLabels_gmail after_step2_gmail
    by (rule exI, rule new_calls_append, rule fold_create_fields(3))
next
  assume a: "listing (gmail w) = ListOk \<and> wf_gmail (gmail w) \<and>
       (\<forall>n\<in>local_names (sheet w). hd n \<noteq> CHR ''/'') \<and>
       (\<forall>n\<in>local_names (sheet w). \<not> proto_member n) \<and>
       (\<forall>n\<in>local_names (sheet w). \<forall>p\<in>set (ancestor_paths n). \<not> proto_member p) \<and>
       (\<forall>n\<in>remote_names (gmail w). \<not> proto_member n)"
  define L where "L = local_names (sheet w)"
  define R where "R = remote_names (gmail w)"
  have ok: "listing (gmail w) = ListOk" "wf_gmail (gmail w)" using a by simp_all
  have pa: "parent_paths n = ancestor_paths n" if "n \<in> L" for n
    using a that local_name_paths(1)[of n "sheet w"] by (simp add: L_def)
  have nL: "\<not> proto_member n" if "n \<in> L" for n using a that by (simp add: L_def)
  have nA: "\<not> proto_member p" if "n \<in> L" "p \<in> set (ancestor_paths n)" for n p
    using a that by (simp add: L_def)
  have nR: "\<not> proto_member n" if "n \<in> R" for n using a that by (simp add: R_def)
  have rem: "remote_names (gmail (snd (syncAllLabels w))) =
      R \<union> {n \<in> L. \<not> proto_member n} \<union>
      (\<Union>n\<in>{n \<in> L. n \<notin> R \<and> \<not> proto_member n}. {p \<in> set (parent_paths n). \<not> proto_member p})"
    unfolding L_def R_def syncAllLabels_gmail by (rule after_step2_remote_names[OF ok])
  have e1: "{n \<in> L. \<not> proto_member n} = L" using nL by blast
  have e2: "{n \<in> L. n \<notin> R \<and> \<not> proto_member n} = L - R" using nL by blast
  have e3: "(\<Union>n\<in>L - R. {p \<in> set (parent_paths n). \<not> proto_member p}) =
      (\<Union>n\<in>L - R. set (ancestor_paths n))"
    using pa nA by auto
  show "remote_names (gmail (snd (syncAllLabels w))) =
           remote_names (gmail w) \<union> local_names (sheet w) \<union>
           (\<Union>n\<in>local_names (sheet w) - remote_names (gmail w). set (ancestor_paths n))"
    unfolding rem e1 e2 e3 unfolding L_def R_def by (rule refl)
  have all: "\<not> proto_member (rl_name l)" if "l \<in> set (labels (gmail (snd (syncAllLabels w))))" for l
  proof -
    have "rl_name l \<in> R \<union> L \<union> (\<Union>n\<in>L - R. set (ancestor_paths n))"
      using that rem unfolding e1 e2 e3 by (auto simp: remote_names_def)
    then show ?thesis using nL nA nR by blast
  qed
  have "local_names (sheet (snd (syncAllLabels w))) =
      local_names (sheet w) \<union>
      ({rl_name l | l. l \<in> set (labels (gmail (snd (syncAllLabels w)))) \<and> \<not> is_system_label l \<and>
         \<not> proto_member (rl_name l)} - {[]})"
    by (rule syncAllLabels_local_names[OF ok(1)])
  also have "{rl_name l | l. l \<in> set (labels (gmail (snd (syncAllLabels w)))) \<and> \<not> is_system_label l \<and>
         \<not> proto_member (rl_name l)} =
      {rl_name l | l. l \<in> set (labels (gmail (snd (syncAllLabels w)))) \<and> \<not> is_system_label l}"
    using all by blast
  finally show "local_names (sheet (snd (syncAllLabels w))) =
           local_names (sheet w) \<union>
           ({rl_name l | l. l \<in> set (labels (gmail (snd (syncAllLabels w)))) \<and> \<not> is_system_label l} - {[]})" .
qed

theorem syncAllLabels_conservation_witness:
  "listing (gmail scenario3) = ListOk \<and> wf_gmail (gmail scenario3)
   \<and> local_names (sheet scenario3) = {''Proj/Sub''}
   \<and> remote_names (gmail (snd (syncAllLabels scenario3))) = {''Proj/Sub'', ''Proj''}
   \<and> getValue 2 NAME_COLUMN (sheet (snd (syncAllLabels scenario3))) = ''Proj/Sub''"
proof -
  have h1: "listing (gmail scenario3) = ListOk \<and> wf_gmail (gmail scenario3)"
    by (simp add: scenario3_def wf_gmail_def)
  have ln: "local_names (sheet scenario3) = {''Proj/Sub''}"
    by (auto simp: scenario3_def local_names_def)
  have h2: "\<forall>n\<in>local_names (sheet scenario3). hd n \<noteq> CHR ''/''"
    by (simp add: ln)
  have rn: "remote_names (gmail scenario3) = {}"
    by (simp add: scenario3_def remote_names_def)
  have ap: "ancestor_paths ''Proj/Sub'' = [''Proj'']"
    by (simp add: ancestor_paths_def upt_rec)
  have lr: "2 \<le> getLastRow (sheet scenario3)"
    by (simp add: scenario3_def getLastRow_def is_blank_def HEADER_ROW_def)
  have v: "getValue 2 NAME_COLUMN (sheet scenario3) = ''Proj/Sub''"
    by (simp add: scenario3_def getValue_def config_defs)
  have h3: "\<forall>n\<in>local_names (sheet scenario3). \<not> proto_member n"
    by (simp add: ln proto_member_def)
  have h4: "\<forall>n\<in>local_names (sheet scenario3). \<forall>p\<in>set (ancestor_paths n). \<not> proto_member p"
    by (simp add: ln ap proto_member_def)
  have h5: "\<forall>n\<in>remote_names (gmail scenario3). \<not> proto_member n"
    by (simp add: rn)
  from syncAllLabels_conservation [of scenario3] h1 h2 h3 h4 h5 lr v
  show ?thesis
    unfolding ln rn by (auto simp: ap)
qed

subsection \<open>Idempotence of the merge sync\<close>

text \<open>
  C6, as stated, fails: a second sync run against an account that nothing else touched
  can still ask for a creation or append a row. With the row \<open>Work\<close> and a listing that
  answers without a payload, each run takes the account for empty, so the second run
  calls for the creation of \<open>Work\<close> again although the first run has made that label.
  With the row \<open>/A\<close> and the listing available, the first run creates a label with the
  empty name as the parent and appends a row for it whose name cell is empty; the second
  run does not find that name in the sheet and appends one more row.
\<close>

theorem syncAllLabels_second_run_counterexample:
  "labels (gmail (snd (syncAllLabels no_payload))) =
     [\<lparr>rl_id = ''Label_1'', rl_name = ''Work'', rl_type = User\<rparr>]
   \<and> new_calls (gmail (snd (syncAllLabels no_payload)))
        (gmail (snd (syncAllLabels (snd (syncAllLabels no_payload))))) = [CreateLabel ''Work'']
   \<and> labels (gmail (snd (syncAllLabels (snd (syncAllLabels no_payload))))) =
        labels (gmail (snd (syncAllLabels no_payload)))
   \<and> getLastRow (sheet (snd (syncAllLabels leading_slash))) = 3
   \<and> getValue 4 LABEL_ID_COLUMN (sheet (snd (syncAllLabels leading_slash))) = []
   \<and> getValue 4 LABEL_ID_COLUMN (sheet (snd (syncAllLabels (snd (syncAllLabels leading_slash))))) =
        ''Label_1''
   \<and> getLastRow (sheet (snd (syncAllLabels (snd (syncAllLabels leading_slash))))) = 4
   \<and> labels (gmail (snd (syncAllLabels (snd (syncAllLabels leading_slash))))) =
        labels (gmail (snd (syncAllLabels leading_slash)))"
  by code_simp

text \<open>
  C6, amended. With the listing available, a well-formed account whose label names are
  non-empty, and no sheet name starting with a slash, a second sync run right after a
  first one (nothing else touching the account in between) returns normally, makes no
  call at all to the account, which stays as the first run left it, leaves the name
  cell of every row as it was and writes nothing below the last row: no label is created
  and no row is appended.
\<close>

theorem syncAllLabels_idempotent:
  assumes "listing (gmail w) = ListOk" and "wf_gmail (gmail w)"
    and "list_all (\<lambda>l. rl_name l \<noteq> []) (labels (gmail w))"
    and "\<forall>n\<in>local_names (sheet w). hd n \<noteq> CHR ''/''"
  shows "fst (syncAllLabels w) = Returned None
       \<and> fst (syncAllLabels (snd (syncAllLabels w))) = Returned None
       \<and> gmail (snd (syncAllLabels (snd (syncAllLabels w)))) = gmail (snd (syncAllLabels w))
       \<and> new_calls (gmail (snd (syncAllLabels w))) (gmail (snd (syncAllLabels (snd (syncAllLabels w))))) = []
       \<and> (\<forall>r. getValue r NAME_COLUMN (sheet (snd (syncAllLabels (snd (syncAllLabels w))))) =
               getValue r NAME_COLUMN (sheet (snd (syncAllLabels w))))
       \<and> (\<forall>r c. getLastRow (sheet (snd (syncAllLabels w))) < r \<longrightarrow>
               getValue r c (sheet (snd (syncAllLabels (snd (syncAllLabels w))))) = [])"
proof -
  define w1 where "w1 = snd (syncAllLabels w)"
  define w2 where "w2 = snd (syncAllLabels w1)"
  define g1 where "g1 = gmail w1"
  have g1: "g1 = gmail (after_step2 w)" by (simp add: g1_def w1_def syncAllLabels_gmail)
  have ok1: "listing g1 = ListOk" using assms(1) by (simp add: g1)
  have wf1: "wf_gmail g1" using assms(2) by (simp add: g1 after_step2_gmail fold_create_wf)
  have names1: "rl_name l \<noteq> []" if "l \<in> set (labels g1)" for l
  proof -
    from after_step2_created_names[OF that[unfolded g1]]
    show ?thesis
    proof
      assume "l \<in> set (labels (gmail w))"
      then show ?thesis using assms(3) by (simp add: list_all_iff)
    next
      assume "rl_type l = User \<and>
          (\<exists>n\<in>local_names (sheet w). rl_name l = n \<or> rl_name l \<in> set (parent_paths n))"
      then obtain n where n: "n \<in> local_names (sheet w)"
        "rl_name l = n \<or> rl_name l \<in> set (parent_paths n)" by blast
      have "n \<noteq> []" using n(1) by (simp add: local_names_def)
      moreover have "[] \<notin> set (parent_paths n)"
        using local_name_paths[OF n(1)] assms(4) n(1) by simp
      ultimately show ?thesis using n(2) by auto
    qed
  qed
  have L1: "local_names (sheet w1) = local_names (sheet w) \<union>
      ({rl_name l | l. l \<in> set (labels g1) \<and> \<not> is_system_label l \<and> \<not> proto_member (rl_name l)} - {[]})"
    unfolding w1_def g1_def by (rule syncAllLabels_local_names[OF assms(1)])
  have sub1: "n \<in> remote_names g1 \<or> proto_member n" if "n \<in> local_names (sheet w1)" for n
  proof -
    have "n \<in> remote_names g1 \<or> proto_member n" if "n \<in> local_names (sheet w)"
      using that unfolding g1 after_step2_remote_names[OF assms(1,2)] by blast
    then show ?thesis using that unfolding L1 by (auto simp: remote_names_def)
  qed
  have step2: "gmail (after_step2 w1) = g1"
    using after_step2_no_creation[of w1] ok1 wf1 sub1 by (simp add: g1_def)
  have covered: "\<forall>l\<in>set (labels g1). is_system_label l \<or>
      obj_has (sheet_label_map (sheet w1) (getLastRow (sheet w1))) (rl_name l)"
  proof
    fix l assume l: "l \<in> set (labels g1)"
    show "is_system_label l \<or>
      obj_has (sheet_label_map (sheet w1) (getLastRow (sheet w1))) (rl_name l)"
    proof (cases "is_system_label l \<or> proto_member (rl_name l)")
      case True
      then show ?thesis by (auto simp: sheet_label_map_has)
    next
      case False
      then have "rl_name l \<in> local_names (sheet w1)"
        unfolding L1 using l names1[OF l] by blast
      then show ?thesis by (simp add: sheet_label_map_has)
    qed
  qed
  have sheet2: "sheet w2 = sheet (after_step2 w1)"
    unfolding w2_def syncAllLabels_sheet_ListOk[OF ok1[unfolded g1_def]]
    using add_missing_rows_none[OF covered[folded step2]] by (simp add: step2)
  have gm2: "gmail w2 = g1"
    by (simp add: w2_def syncAllLabels_gmail step2)
  have r1: "fst (syncAllLabels w) = Returned None"
    using assms(1) by (simp add: syncAllLabels_fst)
  have r2: "fst (syncAllLabels w1) = Returned None"
    using ok1 by (simp add: syncAllLabels_fst g1_def)
  have nc: "new_calls g1 (gmail w2) = []" by (simp add: gm2 new_calls_def)
  have nm: "\<forall>r. getValue r NAME_COLUMN (sheet w2) = getValue r NAME_COLUMN (sheet w1)"
    by (simp add: sheet2)
  have below: "\<forall>r c. getLastRow (sheet w1) < r \<longrightarrow> getValue r c (sheet w2) = []"
    by (simp add: sheet2 after_step2_below)
  show ?thesis
    using r1 r2 gm2 nc nm below unfolding w2_def w1_def g1_def by simp
qed

theorem syncAllLabels_idempotent_witness:
  "listing (gmail scenario3) = ListOk \<and> wf_gmail (gmail scenario3)
   \<and> list_all (\<lambda>l. rl_name l \<noteq> []) (labels (gmail scenario3))
   \<and> local_names (sheet scenario3) = {''Proj/Sub''}
   \<and> fst (syncAllLabels (snd (syncAllLabels scenario3))) = Returned None
   \<and> new_calls (gmail (snd (syncAllLabels scenario3)))
        (gmail (snd (syncAllLabels (snd (syncAllLabels scenario3))))) = []
   \<and> getValue 3 NAME_COLUMN (sheet (snd (syncAllLabels (snd (syncAllLabels scenario3))))) =
       getValue 3 NAME_COLUMN (sheet (snd (syncAllLabels scenario3)))"
proof -
  have h1: "listing (gmail scenario3) = ListOk" by (simp add: scenario3_def)
  have h2: "wf_gmail (gmail scenario3)" by (simp add: scenario3_def wf_gmail_def)
  have h3: "list_all (\<lambda>l. rl_name l \<noteq> []) (labels (gmail scenario3))" by (simp add: scenario3_def)
  have ln: "local_names (sheet scenario3) = {''Proj/Sub''}"
    by (auto simp: scenario3_def local_names_def)
  have h4: "\<forall>n\<in>local_names (sheet scenario3). hd n \<noteq> CHR ''/''" by (simp add: ln)
  from syncAllLabels_idempotent [OF h1 h2 h3 h4] h1 h2 h3 ln
  show ?thesis by simp
qed

subsection \<open>System labels\<close>

text \<open>
  C8, as stated, fails: the name lookups of the directory client do return system
  labels. \<open>getLabelMap\<close> maps every listed label, so \<open>INBOX\<close> is found by name.
\<close>

theorem system_label_lookup_counterexample:
  "is_system_label inbox_label \<and> inbox_label \<in> set (labels (gmail scenario4))
   \<and> fst (getLabelId ''INBOX'' scenario4) = Some ''INBOX''"
  by code_simp

text \<open>
  C8, amended. The names a sync adds to the sheet are names of labels that are not
  system labels (by type, reserved name or \<open>CATEGORY_\<close> prefix). A sync and every
  row-change operation touch user labels only: the calls they make create labels or act
  through the object of a user label (re-tagging, deleting), and every label of type
  system is still in the account afterwards. The label map of the directory client has
  all the label names of the account, system labels included (but for \<^verbatim>\<open>__proto__\<close>, the
  one key that the map, a plain object, cannot hold), and in a well-formed account the
  lookup by name finds every label, whatever its type.
\<close>

theorem system_labels_scope:
  "local_names (sheet (snd (syncAllLabels w))) \<subseteq>
     local_names (sheet w) \<union>
     {rl_name l | l. l \<in> set (labels (gmail (snd (syncAllLabels w)))) \<and> \<not> is_system_label l}
   \<and> user_only (gmail w) (gmail (snd (syncAllLabels w)))
   \<and> user_only (gmail w) (gmail (handleLabelChange row oldValue newValue w))
   \<and> (listing (gmail w) = ListOk \<longrightarrow>
        dom (fst (getLabelMap w)) = remote_names (gmail w) - {proto_key})
   \<and> (listing (gmail w) = ListOk \<and> wf_gmail (gmail w) \<longrightarrow>
        (\<forall>l\<in>set (labels (gmail w)). fst (getLabelId (rl_name l) w) \<noteq> None))"
  using syncAllLabels_appends_no_system[of w] user_only_syncAllLabels[of w]
    user_only_handleLabelChange[of w row oldValue newValue]
    getLabelMap_dom[of w] getLabelId_finds_listed[of w] by blast

theorem system_labels_scope_witness:
  "listing (gmail scenario4) = ListOk \<and> wf_gmail (gmail scenario4)
   \<and> proto_key \<notin> remote_names (gmail scenario4)
   \<and> dom (fst (getLabelMap scenario4)) = remote_names (gmail scenario4)
   \<and> inbox_label \<in> set (labels (gmail scenario4)) \<and> rl_type inbox_label = System
   \<and> fst (getLabelId ''INBOX'' scenario4) \<noteq> None
   \<and> user_only (gmail scenario4) (gmail (snd (syncAllLabels scenario4)))
   \<and> user_only (gmail scenario4) (gmail (handleLabelChange 2 ''Old'' [] scenario4))"
proof -
  have h1: "listing (gmail scenario4) = ListOk" by (simp add: example_defs)
  have h2: "wf_gmail (gmail scenario4)" by (simp add: example_defs wf_gmail_def)
  have h3: "proto_key \<notin> remote_names (gmail scenario4)"
    by (simp add: example_defs remote_names_def proto_key_def)
  have h4: "inbox_label \<in> set (labels (gmail scenario4))" by (simp add: example_defs)
  have h5: "rl_type inbox_label = System" "rl_name inbox_label = ''INBOX''"
    by (simp_all add: example_defs)
  from system_labels_scope [of scenario4 2 "''Old''" "[]"] h1 h2 h3 h4 h5
  show ?thesis by auto
qed

end
